theory Spec2Isabelle
  imports Complex_Main "HOL-Library.Multiset"
begin

section \<open>The meeple simulation (src/meeples/main3.py)\<close>

text \<open>
  A shallow embedding of the simulation core of \<^verbatim>\<open>main3.py\<close>: the classes
  \<^verbatim>\<open>Meeple\<close>, \<^verbatim>\<open>Placeable\<close> (\<^verbatim>\<open>Hole\<close>, \<^verbatim>\<open>Hut\<close>,
  \<^verbatim>\<open>Farm\<close>, \<^verbatim>\<open>Factory\<close>, \<^verbatim>\<open>Tree\<close>) and \<^verbatim>\<open>Hurricane\<close>,
  the function \<^verbatim>\<open>handle_collisions\<close> and the phases of the game loop.

  Conventions of the model.
  \<^item> Python floats are modelled as real numbers: every float operation is taken to be
    exact.
  \<^item> A \<^verbatim>\<open>Meeple\<close> object is an address (\<open>mref\<close>) into a store \<open>mheap\<close>;
    Python's identity comparison (\<^verbatim>\<open>m in meeples_to_remove\<close>, no \<^verbatim>\<open>__eq__\<close> is
    defined) is equality of addresses. The list \<^verbatim>\<open>meeples\<close> and every resident list
    hold addresses.
  \<^item> A \<^verbatim>\<open>Placeable\<close> object is identified by its index in the list
    \<^verbatim>\<open>placeables\<close>: the program only ever appends to that list, and a Meeple's
    \<^verbatim>\<open>home\<close> is only ever set to a Hut that has just been appended.
  \<^item> Every call of \<^verbatim>\<open>random\<close> and of \<^verbatim>\<open>time.time()\<close> is a parameter of the
    function that makes it; drawing, fonts, the rain drops of the renderer and
    \<^verbatim>\<open>print\<close> are left out.
\<close>

subsection \<open>Constants\<close>

definition SIMULATION_WIDTH :: int where "SIMULATION_WIDTH = 800"
definition TOOLBAR_WIDTH :: int where "TOOLBAR_WIDTH = 100"
definition SCREEN_HEIGHT :: int where "SCREEN_HEIGHT = 600"
definition ICON_SIZE :: int where "ICON_SIZE = 50"
definition ICON_PADDING :: int where "ICON_PADDING = 8"
definition INITIAL_NUM_MEEPLES :: nat where "INITIAL_NUM_MEEPLES = 20"
definition BODY_RADIUS :: int where "BODY_RADIUS = 8"
definition HEAD_RADIUS_RATIO :: real where "HEAD_RADIUS_RATIO = 0.6"
definition HEAD_V_OFFSET_RATIO :: real where "HEAD_V_OFFSET_RATIO = 0.8"
definition OUTLINE_WIDTH :: int where "OUTLINE_WIDTH = 1"
definition SHADOW_OFFSET :: int where "SHADOW_OFFSET = 2"
definition MEEPLE_BASE_SPEED :: real where "MEEPLE_BASE_SPEED = 50.0"
definition WANDER_STRENGTH :: real where "WANDER_STRENGTH = 1.5"
definition COLLISION_PUSH_FORCE :: real where "COLLISION_PUSH_FORCE = 1.0"
definition OBSTACLE_PUSH_FORCE :: real where "OBSTACLE_PUSH_FORCE = 1.5"
definition HOME_PROXIMITY_THRESHOLD :: real where "HOME_PROXIMITY_THRESHOLD = 15"
definition SPEED_CHANGE_STEP :: real where "SPEED_CHANGE_STEP = 0.2"
definition MIN_SPEED_MULT :: real where "MIN_SPEED_MULT = 0.2"
definition MAX_SPEED_MULT :: real where "MAX_SPEED_MULT = 5.0"
definition DAY_DURATION_SECONDS :: real where "DAY_DURATION_SECONDS = 30"
definition NIGHT_DURATION_SECONDS :: real where "NIGHT_DURATION_SECONDS = 20"
definition FULL_CYCLE_SECONDS :: real where
  "FULL_CYCLE_SECONDS = DAY_DURATION_SECONDS + NIGHT_DURATION_SECONDS"
definition HOLE_RADIUS :: int where "HOLE_RADIUS = 30"
definition HUT_BASE_SIZE :: "int \<times> int" where "HUT_BASE_SIZE = (50, 30)"
definition HUT_ROOF_HEIGHT :: int where "HUT_ROOF_HEIGHT = 30"
definition HUT_MAX_RESIDENTS :: nat where "HUT_MAX_RESIDENTS = 4"
definition FARM_SIZE :: "int \<times> int" where "FARM_SIZE = (100, 70)"
definition FACTORY_BASE_SIZE :: "int \<times> int" where "FACTORY_BASE_SIZE = (70, 50)"
definition FACTORY_CHIMNEY_SIZE :: "int \<times> int" where "FACTORY_CHIMNEY_SIZE = (8, 30)"
definition TREE_TRUNK_WIDTH :: int where "TREE_TRUNK_WIDTH = 6"
definition HURRICANE_RADIUS :: real where "HURRICANE_RADIUS = 100"
definition HURRICANE_STRENGTH :: real where "HURRICANE_STRENGTH = 80.0"
definition HURRICANE_DURATION :: real where "HURRICANE_DURATION = 8"
definition RAIN_DURATION :: real where "RAIN_DURATION = 10"
definition RAIN_SPEED_MULTIPLIER :: real where "RAIN_SPEED_MULTIPLIER = 0.6"

subsection \<open>Library functions: \<^verbatim>\<open>math\<close>, \<^verbatim>\<open>int()\<close>, float \<^verbatim>\<open>%\<close>, \<^verbatim>\<open>pygame.Rect\<close>\<close>

text \<open>\<^verbatim>\<open>int(x)\<close> on a float truncates towards zero.\<close>

definition py_int :: "real \<Rightarrow> int" where
  "py_int v = (if 0 \<le> v then \<lfloor>v\<rfloor> else \<lceil>v\<rceil>)"

text \<open>\<^verbatim>\<open>a % b\<close> on floats, for a positive \<open>b\<close>: the result lies in \<open>[0, b)\<close>.\<close>

definition py_fmod :: "real \<Rightarrow> real \<Rightarrow> real" where
  "py_fmod a b = a - of_int \<lfloor>a / b\<rfloor> * b"

definition hypot :: "real \<Rightarrow> real \<Rightarrow> real" where
  "hypot a b = sqrt (a\<^sup>2 + b\<^sup>2)"

text \<open>\<^verbatim>\<open>math.atan2(y, x)\<close>: the angle of the point \<open>(x, y)\<close>, in \<open>[-pi, pi]\<close>.\<close>

definition atan2 :: "real \<Rightarrow> real \<Rightarrow> real" where
  "atan2 v u =
     (if 0 < u then arctan (v / u)
      else if u < 0 then (if 0 \<le> v then arctan (v / u) + pi else arctan (v / u) - pi)
      else if 0 < v then pi / 2
      else if v < 0 then - (pi / 2)
      else 0)"

text \<open>
  \<^verbatim>\<open>pygame.Rect\<close> holds four integers. Built from floats, each argument is
  truncated. A Rect is truthy when its width and height are non-zero;
  \<^verbatim>\<open>colliderect\<close> is pygame's intersection test, which is strict (rectangles that
  only touch do not collide) and false for a rectangle of zero size.
\<close>

record Rect =
  r_x :: int
  r_y :: int
  r_w :: int
  r_h :: int

definition mk_Rect :: "int \<Rightarrow> int \<Rightarrow> int \<Rightarrow> int \<Rightarrow> Rect" where
  "mk_Rect a b c d = \<lparr>r_x = a, r_y = b, r_w = c, r_h = d\<rparr>"

definition mk_Rect_float :: "real \<Rightarrow> real \<Rightarrow> real \<Rightarrow> real \<Rightarrow> Rect" where
  "mk_Rect_float a b c d = mk_Rect (py_int a) (py_int b) (py_int c) (py_int d)"

definition r_left :: "Rect \<Rightarrow> int" where "r_left r = r_x r"
definition r_top :: "Rect \<Rightarrow> int" where "r_top r = r_y r"
definition r_right :: "Rect \<Rightarrow> int" where "r_right r = r_x r + r_w r"
definition r_bottom :: "Rect \<Rightarrow> int" where "r_bottom r = r_y r + r_h r"
definition centerx :: "Rect \<Rightarrow> int" where "centerx r = r_x r + r_w r div 2"
definition centery :: "Rect \<Rightarrow> int" where "centery r = r_y r + r_h r div 2"
definition center :: "Rect \<Rightarrow> int \<times> int" where "center r = (centerx r, centery r)"

definition rect_truthy :: "Rect \<Rightarrow> bool" where
  "rect_truthy r \<longleftrightarrow> r_w r \<noteq> 0 \<and> r_h r \<noteq> 0"

definition colliderect :: "Rect \<Rightarrow> Rect \<Rightarrow> bool" where
  "colliderect a b \<longleftrightarrow>
     rect_truthy a \<and> rect_truthy b \<and>
     min (r_x a) (r_x a + r_w a) < max (r_x b) (r_x b + r_w b) \<and>
     min (r_y a) (r_y a + r_h a) < max (r_y b) (r_y b + r_h b) \<and>
     max (r_x a) (r_x a + r_w a) > min (r_x b) (r_x b + r_w b) \<and>
     max (r_y a) (r_y a + r_h a) > min (r_y b) (r_y b + r_h b)"

definition collidepoint :: "Rect \<Rightarrow> int \<Rightarrow> int \<Rightarrow> bool" where
  "collidepoint r a b \<longleftrightarrow>
     r_x r \<le> a \<and> a < r_x r + r_w r \<and> r_y r \<le> b \<and> b < r_y r + r_h r"

definition rect_union :: "Rect \<Rightarrow> Rect \<Rightarrow> Rect" where
  "rect_union a b =
     (let l = min (r_x a) (r_x b); t = min (r_y a) (r_y b);
          rr = max (r_right a) (r_right b); bb = max (r_bottom a) (r_bottom b)
      in mk_Rect l t (rr - l) (bb - t))"

subsection \<open>The data model\<close>

type_synonym mref = nat

datatype mstate = Wandering | GoingHome | AtHome

record meeple =
  m_x :: real
  m_y :: real
  body_radius :: int
  head_radius :: int
  head_v_offset :: int
  collision_radius :: int
  sim_width :: int
  sim_height :: int
  speed_multiplier_effect :: real
  angle :: real
  m_dx :: real
  m_dy :: real
  home :: "nat option"
  state :: mstate
  target_pos :: "(int \<times> int) option"
  force_x :: real
  force_y :: real

text \<open>\<^verbatim>\<open>Meeple.__init__\<close>; \<open>heading\<close> is the draw \<^verbatim>\<open>random.uniform(0, 2 * math.pi)\<close>.\<close>

definition Meeple :: "real \<Rightarrow> real \<Rightarrow> int \<Rightarrow> int \<Rightarrow> real \<Rightarrow> meeple" where
  "Meeple x0 y0 sw sh heading =
     \<lparr>m_x = x0, m_y = y0,
      body_radius = BODY_RADIUS,
      head_radius = py_int (real_of_int BODY_RADIUS * HEAD_RADIUS_RATIO),
      head_v_offset = - py_int (real_of_int BODY_RADIUS * HEAD_V_OFFSET_RATIO),
      collision_radius = BODY_RADIUS,
      sim_width = sw, sim_height = sh,
      speed_multiplier_effect = 1.0,
      angle = heading,
      m_dx = 0, m_dy = 0,
      home = None, state = Wandering, target_pos = None,
      force_x = 0, force_y = 0\<rparr>"

datatype kind = Hole | Hut | Farm | Factory | Tree

text \<open>
  One record for the five subclasses of \<^verbatim>\<open>Placeable\<close>. The fields below
  \<open>collision_rect\<close> belong to one subclass each (\<open>radius\<close> to Hole; \<open>rect\<close> to Hut,
  Farm and Factory; \<open>residents\<close> and \<open>max_residents\<close> to Hut); in an object of
  another subclass they hold a filler that the program never reads.
\<close>

record placeable =
  kind :: kind
  p_x :: real
  p_y :: real
  collision_rect :: Rect
  rect :: Rect
  radius :: int
  residents :: "mref list"
  max_residents :: nat

definition new_Hole :: "int \<Rightarrow> int \<Rightarrow> placeable" where
  "new_Hole x0 y0 =
     (let c = mk_Rect (x0 - HOLE_RADIUS) (y0 - HOLE_RADIUS) (HOLE_RADIUS * 2) (HOLE_RADIUS * 2)
      in \<lparr>kind = Hole, p_x = real_of_int x0, p_y = real_of_int y0, collision_rect = c,
          rect = c, radius = HOLE_RADIUS, residents = [], max_residents = 0\<rparr>)"

definition new_Hut :: "int \<Rightarrow> int \<Rightarrow> placeable" where
  "new_Hut cx cy =
     (let width = fst HUT_BASE_SIZE; base_height = snd HUT_BASE_SIZE;
          r = mk_Rect (cx - width div 2) (cy - base_height div 2) width base_height;
          c = mk_Rect (r_left r) (r_top r - HUT_ROOF_HEIGHT) width (base_height + HUT_ROOF_HEIGHT)
      in \<lparr>kind = Hut, p_x = real_of_int cx, p_y = real_of_int cy, collision_rect = c,
          rect = r, radius = 0, residents = [], max_residents = HUT_MAX_RESIDENTS\<rparr>)"

definition new_Farm :: "int \<Rightarrow> int \<Rightarrow> placeable" where
  "new_Farm cx cy =
     (let width = fst FARM_SIZE; height = snd FARM_SIZE;
          r = mk_Rect (cx - width div 2) (cy - height div 2) width height
      in \<lparr>kind = Farm, p_x = real_of_int cx, p_y = real_of_int cy, collision_rect = r,
          rect = r, radius = 0, residents = [], max_residents = 0\<rparr>)"

definition new_Factory :: "int \<Rightarrow> int \<Rightarrow> placeable" where
  "new_Factory cx cy =
     (let width = fst FACTORY_BASE_SIZE; height = snd FACTORY_BASE_SIZE;
          r = mk_Rect (cx - width div 2) (cy - height div 2) width height;
          chimney_w = fst FACTORY_CHIMNEY_SIZE; chimney_h = snd FACTORY_CHIMNEY_SIZE;
          chimney_rect = mk_Rect (r_right r - chimney_w - 5) (r_top r - chimney_h)
                           chimney_w chimney_h
      in \<lparr>kind = Factory, p_x = real_of_int cx, p_y = real_of_int cy,
          collision_rect = rect_union r chimney_rect,
          rect = r, radius = 0, residents = [], max_residents = 0\<rparr>)"

definition new_Tree :: "int \<Rightarrow> int \<Rightarrow> placeable" where
  "new_Tree x0 y0 =
     (let trunk_radius = TREE_TRUNK_WIDTH div 2;
          c = mk_Rect (x0 - trunk_radius) (y0 - trunk_radius) (trunk_radius * 2) (trunk_radius * 2)
      in \<lparr>kind = Tree, p_x = real_of_int x0, p_y = real_of_int y0, collision_rect = c,
          rect = c, radius = 0, residents = [], max_residents = 0\<rparr>)"

record hurricane =
  h_x :: int
  h_y :: int
  h_radius :: real
  strength :: real
  end_time :: real
  max_radius_sq :: real

text \<open>\<^verbatim>\<open>Hurricane.__init__\<close>; \<open>now\<close> is the reading of \<^verbatim>\<open>time.time()\<close>.\<close>

definition Hurricane :: "int \<Rightarrow> int \<Rightarrow> real \<Rightarrow> hurricane" where
  "Hurricane x0 y0 now =
     \<lparr>h_x = x0, h_y = y0, h_radius = HURRICANE_RADIUS, strength = HURRICANE_STRENGTH,
      end_time = now + HURRICANE_DURATION,
      max_radius_sq = HURRICANE_RADIUS * HURRICANE_RADIUS\<rparr>"

definition is_active :: "hurricane \<Rightarrow> real \<Rightarrow> bool" where
  "is_active e now \<longleftrightarrow> now < end_time e"

datatype tool = ToolHole | ToolHut | ToolFarm | ToolFactory | ToolHurricane | ToolTree
  | ToolRain | ToolAddMeeple

definition TOOLS :: "tool list" where
  "TOOLS = [ToolHole, ToolHut, ToolFarm, ToolFactory, ToolHurricane, ToolTree, ToolRain,
            ToolAddMeeple]"

text \<open>
  The global state of the program. \<open>mheap\<close> is the store of Meeple objects and
  \<open>next_mref\<close> the next free address.
\<close>

record world =
  mheap :: "mref \<Rightarrow> meeple"
  next_mref :: mref
  meeples :: "mref list"
  placeables :: "placeable list"
  active_effects :: "hurricane list"
  is_raining :: bool
  rain_end_time :: real
  selected_tool :: "tool option"
  simulation_speed_multiplier :: real
  cycle_timer :: real
  is_daytime :: bool
  running :: bool

subsection \<open>Methods of \<^verbatim>\<open>Meeple\<close>, \<^verbatim>\<open>Hut\<close> and \<^verbatim>\<open>Hurricane\<close>\<close>

text \<open>
  \<^verbatim>\<open>Meeple.assign_home(self, home_building)\<close>. The building is the \<open>i\<close>-th
  placeable; an index outside the list stands for no object and is refused.
\<close>

definition assign_home :: "mref \<Rightarrow> nat \<Rightarrow> world \<Rightarrow> bool \<times> world" where
  "assign_home m i w =
     (if i < length (placeables w) \<and> kind (placeables w ! i) = Hut \<and>
         length (residents (placeables w ! i)) < max_residents (placeables w ! i)
      then (True,
            w\<lparr>mheap := (mheap w)(m := (mheap w m)\<lparr>home := Some i\<rparr>),
              placeables := (placeables w)
                [i := (placeables w ! i)\<lparr>residents := residents (placeables w ! i) @ [m]\<rparr>]\<rparr>)
      else (False, w))"

definition apply_force :: "real \<Rightarrow> real \<Rightarrow> meeple \<Rightarrow> meeple" where
  "apply_force fx fy me = me\<lparr>force_x := force_x me + fx, force_y := force_y me + fy\<rparr>"

text \<open>
  \<^verbatim>\<open>Hut.get_random_spot_nearby\<close>; \<open>a\<close> and \<open>r\<close> are its two draws
  (\<^verbatim>\<open>random.uniform(0, 2 * math.pi)\<close> and \<^verbatim>\<open>random.uniform(0, self.width * 0.3)\<close>).
\<close>

definition get_random_spot_nearby :: "placeable \<Rightarrow> real \<Rightarrow> real \<Rightarrow> real \<times> real" where
  "get_random_spot_nearby hut a r =
     (real_of_int (centerx (rect hut)) + cos a * r,
      real_of_int (centery (rect hut)) + sin a * r)"

text \<open>The three draws that one call of \<^verbatim>\<open>Meeple.update\<close> may make.\<close>

record draw =
  wander_draw :: real
  spot_angle :: real
  spot_radius :: real

text \<open>
  \<^verbatim>\<open>Meeple.update\<close>, first part ("State Logic"). \<open>ps\<close> is the list of
  placeables, through which \<^verbatim>\<open>self.home\<close> is read.
\<close>

definition update_state :: "placeable list \<Rightarrow> bool \<Rightarrow> draw \<Rightarrow> meeple \<Rightarrow> meeple" where
  "update_state ps daytime d me =
     (case home me of
        None \<Rightarrow> me
      | Some i \<Rightarrow>
          (let hut = ps ! i;
               dist_to_home_sq = (m_x me - real_of_int (centerx (rect hut)))\<^sup>2
                               + (m_y me - real_of_int (centery (rect hut)))\<^sup>2;
               is_near_home = (dist_to_home_sq < HOME_PROXIMITY_THRESHOLD\<^sup>2);
               me1 = (if daytime
                      then (if state me = AtHome
                            then me\<lparr>state := Wandering, target_pos := None\<rparr> else me)
                      else (if state me = Wandering
                            then me\<lparr>state := GoingHome, target_pos := Some (center (rect hut))\<rparr>
                            else me))
           in if state me1 = GoingHome \<and> is_near_home
              then (let spot = get_random_spot_nearby hut (spot_angle d) (spot_radius d)
                    in me1\<lparr>state := AtHome, target_pos := None,
                           m_x := fst spot, m_y := snd spot\<rparr>)
              else me1))"

text \<open>
  Second part ("Movement Logic", external forces, position update). \<open>ssm\<close> is the
  global \<^verbatim>\<open>simulation_speed_multiplier\<close>.
\<close>

definition update_movement :: "real \<Rightarrow> real \<Rightarrow> draw \<Rightarrow> meeple \<Rightarrow> meeple" where
  "update_movement ssm dt d me =
     (let current_base_speed = MEEPLE_BASE_SPEED * speed_multiplier_effect me;
          effective_speed = current_base_speed * ssm;
          me1 = (if state me = AtHome then me\<lparr>m_dx := 0, m_dy := 0\<rparr>
                 else if state me = GoingHome \<and> target_pos me \<noteq> None then
                   (let target_dx = real_of_int (fst (the (target_pos me))) - m_x me;
                        target_dy = real_of_int (snd (the (target_pos me))) - m_y me;
                        dist_to_target = hypot target_dx target_dy
                    in if dist_to_target > 1.0
                       then (let a = atan2 target_dy target_dx
                             in me\<lparr>angle := a, m_dx := cos a * effective_speed,
                                   m_dy := sin a * effective_speed\<rparr>)
                       else me\<lparr>m_dx := 0, m_dy := 0\<rparr>)
                 else
                   (let angle_change = wander_draw d * dt * ssm;
                        a = angle me + angle_change
                    in me\<lparr>angle := a, m_dx := cos a * effective_speed,
                          m_dy := sin a * effective_speed\<rparr>));
          me2 = me1\<lparr>m_dx := m_dx me1 + force_x me1 * dt * ssm,
                    m_dy := m_dy me1 + force_y me1 * dt * ssm,
                    force_x := 0, force_y := 0\<rparr>
      in me2\<lparr>m_x := m_x me2 + m_dx me2 * dt, m_y := m_y me2 + m_dy me2 * dt\<rparr>)"

text \<open>Third part ("Boundary Check").\<close>

definition update_boundary :: "meeple \<Rightarrow> meeple" where
  "update_boundary me =
     (let buffer = real_of_int (collision_radius me + OUTLINE_WIDTH);
          head_top_y = m_y me + real_of_int (head_v_offset me) - real_of_int (head_radius me);
          bounce_damp = 0.5;
          me1 = (if m_x me - buffer < 0
                 then (let vx = \<bar>m_dx me * bounce_damp\<bar>
                       in me\<lparr>m_x := buffer, m_dx := vx, angle := atan2 (m_dy me) vx\<rparr>)
                 else if m_x me + buffer > real_of_int (sim_width me)
                 then (let vx = - \<bar>m_dx me * bounce_damp\<bar>
                       in me\<lparr>m_x := real_of_int (sim_width me) - buffer, m_dx := vx,
                             angle := atan2 (m_dy me) vx\<rparr>)
                 else me)
      in if head_top_y - buffer < 0
         then (let vy = \<bar>m_dy me1 * bounce_damp\<bar>
               in me1\<lparr>m_y := buffer - real_of_int (head_v_offset me1 - head_radius me1),
                      m_dy := vy, angle := atan2 vy (m_dx me1)\<rparr>)
         else if m_y me1 + real_of_int (SHADOW_OFFSET + body_radius me1) + buffer
                 > real_of_int (sim_height me1)
         then (let vy = - \<bar>m_dy me1 * bounce_damp\<bar>
               in me1\<lparr>m_y := real_of_int (sim_height me1)
                               - real_of_int (SHADOW_OFFSET + body_radius me1) - buffer,
                      m_dy := vy, angle := atan2 vy (m_dx me1)\<rparr>)
         else me1)"

text \<open>\<^verbatim>\<open>Meeple.update(self, dt, is_daytime)\<close>.\<close>

definition update :: "placeable list \<Rightarrow> real \<Rightarrow> real \<Rightarrow> bool \<Rightarrow> draw \<Rightarrow> meeple \<Rightarrow> meeple" where
  "update ps ssm dt daytime d me =
     update_boundary (update_movement ssm dt d (update_state ps daytime d me))"

text \<open>\<^verbatim>\<open>Hurricane.apply_effect(self, meeple)\<close>.\<close>

definition apply_effect :: "hurricane \<Rightarrow> meeple \<Rightarrow> meeple" where
  "apply_effect e me =
     (let dist_x = m_x me - real_of_int (h_x e); dist_y = m_y me - real_of_int (h_y e);
          dist_sq = dist_x\<^sup>2 + dist_y\<^sup>2
      in if dist_sq < max_radius_sq e \<and> dist_sq > 0.01
         then (let distance = sqrt dist_sq;
                   norm_x = dist_x / distance; norm_y = dist_y / distance;
                   fx = - norm_y * strength e + norm_x * strength e * 0.1;
                   fy = norm_x * strength e + norm_y * strength e * 0.1
               in apply_force fx fy me)
         else me)"

subsection \<open>\<^verbatim>\<open>handle_collisions(meeples, obstacles, dt)\<close>\<close>

type_synonym heap = "mref \<Rightarrow> meeple"

definition push_scale :: real where "push_scale = 1.0"

text \<open>
  The body of the inner loop of the Meeple-Meeple pass, for the objects \<open>a\<close>
  (\<^verbatim>\<open>m1\<close>) and \<open>b\<close> (\<^verbatim>\<open>m2\<close>).
\<close>

definition push_pair :: "mref \<Rightarrow> mref \<Rightarrow> heap \<Rightarrow> heap" where
  "push_pair a b h =
     (let dist_x = m_x (h a) - m_x (h b); dist_y = m_y (h a) - m_y (h b);
          dist_sq = dist_x\<^sup>2 + dist_y\<^sup>2;
          min_dist = real_of_int (collision_radius (h a) + collision_radius (h b));
          min_dist_sq = min_dist\<^sup>2
      in if dist_sq < min_dist_sq \<and> dist_sq > 0.001
         then (let distance = sqrt dist_sq;
                   overlap = (min_dist - distance) / 2.0;
                   push_x = (dist_x / distance) * overlap * COLLISION_PUSH_FORCE * push_scale;
                   push_y = (dist_y / distance) * overlap * COLLISION_PUSH_FORCE * push_scale;
                   h1 = h(a := (h a)\<lparr>m_x := m_x (h a) + push_x, m_y := m_y (h a) + push_y\<rparr>)
               in h1(b := (h1 b)\<lparr>m_x := m_x (h1 b) - push_x, m_y := m_y (h1 b) - push_y\<rparr>))
         else h)"

text \<open>The loop over \<open>j\<close> for a fixed \<open>i\<close>; \<open>bs\<close> is \<^verbatim>\<open>meeples[i+1:]\<close>.\<close>

fun pair_loop :: "mref \<Rightarrow> mref list \<Rightarrow> mref list \<Rightarrow> heap \<Rightarrow> heap" where
  "pair_loop a [] rm h = h"
| "pair_loop a (b # bs) rm h =
     pair_loop a bs rm (if b \<in> set rm then h else push_pair a b h)"

text \<open>The loop over \<open>i\<close> (pass "Meeple-Meeple").\<close>

fun meeple_pass :: "mref list \<Rightarrow> mref list \<Rightarrow> heap \<Rightarrow> heap" where
  "meeple_pass [] rm h = h"
| "meeple_pass (a # as) rm h =
     meeple_pass as rm (if a \<in> set rm then h else pair_loop a as rm h)"

definition meeple_col_rect :: "meeple \<Rightarrow> Rect" where
  "meeple_col_rect me =
     mk_Rect_float (m_x me - real_of_int (collision_radius me))
                   (m_y me - real_of_int (collision_radius me))
                   (real_of_int (collision_radius me * 2))
                   (real_of_int (collision_radius me * 2))"

text \<open>
  The body of the loop over the obstacles for the meeple \<open>m\<close>: the push out of the
  obstacle's rectangle, then the Hole check, which reads the position the push has
  just written. The state is the store and the list \<^verbatim>\<open>meeples_to_remove\<close>.
\<close>

definition collide_obstacle ::
    "real \<Rightarrow> mref \<Rightarrow> Rect \<Rightarrow> placeable \<Rightarrow> heap \<times> mref list \<Rightarrow> heap \<times> mref list" where
  "collide_obstacle dt m mrect obs s =
     (let h = fst s; rm = snd s;
          h1 = (if rect_truthy (collision_rect obs) \<and> colliderect mrect (collision_rect obs)
                then (let center_x_obs = real_of_int (centerx (collision_rect obs));
                          center_y_obs = real_of_int (centery (collision_rect obs));
                          dist_x0 = m_x (h m) - center_x_obs;
                          dist_y = m_y (h m) - center_y_obs;
                          dist0 = hypot dist_x0 dist_y;
                          dist = (if dist0 < 0.01 then 0.01 else dist0);
                          dist_x = (if dist0 < 0.01 then 0.01 else dist_x0);
                          push_x = (dist_x / dist) * OBSTACLE_PUSH_FORCE * push_scale;
                          push_y = (dist_y / dist) * OBSTACLE_PUSH_FORCE * push_scale;
                          me1 = (h m)\<lparr>m_x := m_x (h m) + push_x, m_y := m_y (h m) + push_y\<rparr>;
                          vel_x = (if dt > 0 then m_dx me1 / dt else 0);
                          vel_y = (if dt > 0 then m_dy me1 / dt else 0);
                          dot_product = vel_x * (dist_x / dist) + vel_y * (dist_y / dist)
                      in h(m := (if dot_product < 0
                                 then me1\<lparr>m_dx := m_dx me1 - dot_product * (dist_x / dist) * dt * 0.8,
                                          m_dy := m_dy me1 - dot_product * (dist_y / dist) * dt * 0.8\<rparr>
                                 else me1)))
                else h);
          rm1 = (if kind obs = Hole
                 then (let dist_x = m_x (h1 m) - p_x obs; dist_y = m_y (h1 m) - p_y obs
                       in if dist_x\<^sup>2 + dist_y\<^sup>2 < (real_of_int (radius obs) * 0.8)\<^sup>2
                          then (if m \<notin> set rm then rm @ [m] else rm)
                          else rm)
                 else rm)
      in (h1, rm1))"

fun obstacle_loop ::
    "real \<Rightarrow> mref \<Rightarrow> Rect \<Rightarrow> placeable list \<Rightarrow> heap \<times> mref list \<Rightarrow> heap \<times> mref list" where
  "obstacle_loop dt m mrect [] s = s"
| "obstacle_loop dt m mrect (obs # os) s =
     obstacle_loop dt m mrect os (collide_obstacle dt m mrect obs s)"

text \<open>The loop over the meeples (pass "Meeple-Obstacle").\<close>

fun obstacle_pass ::
    "real \<Rightarrow> mref list \<Rightarrow> placeable list \<Rightarrow> heap \<times> mref list \<Rightarrow> heap \<times> mref list" where
  "obstacle_pass dt [] os s = s"
| "obstacle_pass dt (m # ms) os s =
     obstacle_pass dt ms os
       (if m \<in> set (snd s) then s
        else obstacle_loop dt m (meeple_col_rect (fst s m)) os s)"

text \<open>
  "Remove from home lists if assigned": \<^verbatim>\<open>list.remove\<close> deletes the first
  occurrence.
\<close>

fun remove_from_homes :: "heap \<Rightarrow> mref list \<Rightarrow> placeable list \<Rightarrow> placeable list" where
  "remove_from_homes h [] ps = ps"
| "remove_from_homes h (m # ms) ps =
     remove_from_homes h ms
       (case home (h m) of
          None \<Rightarrow> ps
        | Some i \<Rightarrow>
            if m \<in> set (residents (ps ! i))
            then ps[i := (ps ! i)\<lparr>residents := remove1 m (residents (ps ! i))\<rparr>]
            else ps)"

text \<open>The two passes, which leave the list \<^verbatim>\<open>meeples\<close> as it is.\<close>

definition collision_passes :: "real \<Rightarrow> world \<Rightarrow> heap \<times> mref list" where
  "collision_passes dt w =
     obstacle_pass dt (meeples w) (placeables w)
       (meeple_pass (meeples w) [] (mheap w), [])"

definition handle_collisions :: "real \<Rightarrow> world \<Rightarrow> world" where
  "handle_collisions dt w =
     (let s = collision_passes dt w; h = fst s; meeples_to_remove = snd s
      in if meeples_to_remove \<noteq> []
         then w\<lparr>mheap := h,
                placeables := remove_from_homes h meeples_to_remove (placeables w),
                meeples := filter (\<lambda>m. m \<notin> set meeples_to_remove) (meeples w)\<rparr>
         else w\<lparr>mheap := h\<rparr>)"

subsection \<open>The game loop\<close>

text \<open>
  "Timekeeping": \<open>tick\<close> is \<^verbatim>\<open>clock.tick(60) / 1000.0\<close>.
\<close>

definition frame_dt :: "real \<Rightarrow> real" where
  "frame_dt tick = min tick 0.05"

text \<open>"Update Day/Night Cycle".\<close>

definition update_cycle :: "real \<Rightarrow> world \<Rightarrow> world" where
  "update_cycle dt w =
     (let t = py_fmod (cycle_timer w + dt * simulation_speed_multiplier w) FULL_CYCLE_SECONDS
      in w\<lparr>cycle_timer := t, is_daytime := (t < DAY_DURATION_SECONDS)\<rparr>)"

datatype key = K_PLUS | K_EQUALS | K_MINUS | K_OTHER

datatype event = QUIT | KEYDOWN key | MOUSEBUTTONDOWN int int | OTHER_EVENT

text \<open>"Speed Control".\<close>

definition speed_control :: "key \<Rightarrow> real \<Rightarrow> real" where
  "speed_control k v =
     (let v1 = (if k = K_PLUS \<or> k = K_EQUALS then v + SPEED_CHANGE_STEP
                else if k = K_MINUS then v - SPEED_CHANGE_STEP
                else v)
      in max MIN_SPEED_MULT (min v1 MAX_SPEED_MULT))"

text \<open>"Toolbar Click": the loop over \<^verbatim>\<open>TOOLS\<close>, with its \<^verbatim>\<open>break\<close>.\<close>

fun toolbar_click :: "int \<Rightarrow> int \<Rightarrow> int \<Rightarrow> tool list \<Rightarrow> tool option \<Rightarrow> tool option" where
  "toolbar_click mouse_x mouse_y icon_y [] sel = sel"
| "toolbar_click mouse_x mouse_y icon_y (tool_name # ts) sel =
     (if collidepoint (mk_Rect (SIMULATION_WIDTH + ICON_PADDING) icon_y ICON_SIZE ICON_SIZE)
           mouse_x mouse_y
      then (if sel \<noteq> Some tool_name then Some tool_name else None)
      else toolbar_click mouse_x mouse_y (icon_y + ICON_SIZE + ICON_PADDING) ts sel)"

text \<open>
  The overlap loops of "Add Placeable \& Check Overlap" and of the tool
  \<^verbatim>\<open>add_meeple\<close>: true when the loop finds an existing object and breaks.
\<close>

fun overlaps_existing :: "Rect \<Rightarrow> placeable list \<Rightarrow> bool" where
  "overlaps_existing r [] = False"
| "overlaps_existing r (existing_obj # ps) =
     (if rect_truthy (collision_rect existing_obj) \<and> colliderect r (collision_rect existing_obj)
      then True
      else overlaps_existing r ps)"

fun blocks_point :: "Rect \<Rightarrow> placeable list \<Rightarrow> bool" where
  "blocks_point temp_rect [] = False"
| "blocks_point temp_rect (obs # ps) =
     (if rect_truthy (collision_rect obs) \<and> colliderect (collision_rect obs) temp_rect
      then True
      else blocks_point temp_rect ps)"

definition can_place :: "placeable \<Rightarrow> placeable list \<Rightarrow> bool" where
  "can_place new_obj ps \<longleftrightarrow>
     \<not> (rect_truthy (collision_rect new_obj) \<and> overlaps_existing (collision_rect new_obj) ps)"

text \<open>
  "Assign residents if it's a Hut": the loop over the shuffled list, with its
  \<^verbatim>\<open>break\<close>; \<open>i\<close> is the new Hut.
\<close>

fun assign_residents :: "nat \<Rightarrow> mref list \<Rightarrow> nat \<Rightarrow> world \<Rightarrow> world" where
  "assign_residents i [] assigned_count w = w"
| "assign_residents i (m # ms) assigned_count w =
     (if fst (assign_home m i w)
      then (if assigned_count + 1 \<ge> max_residents (placeables (snd (assign_home m i w)) ! i)
            then snd (assign_home m i w)
            else assign_residents i ms (assigned_count + 1) (snd (assign_home m i w)))
      else assign_residents i ms assigned_count (snd (assign_home m i w)))"

definition unassigned :: "world \<Rightarrow> mref list" where
  "unassigned w = filter (\<lambda>m. home (mheap w m) = None) (meeples w)"

definition new_placeable :: "tool \<Rightarrow> int \<Rightarrow> int \<Rightarrow> placeable option" where
  "new_placeable t mouse_x mouse_y =
     (case t of
        ToolHole \<Rightarrow> Some (new_Hole mouse_x mouse_y)
      | ToolHut \<Rightarrow> Some (new_Hut mouse_x mouse_y)
      | ToolFarm \<Rightarrow> Some (new_Farm mouse_x mouse_y)
      | ToolFactory \<Rightarrow> Some (new_Factory mouse_x mouse_y)
      | ToolTree \<Rightarrow> Some (new_Tree mouse_x mouse_y)
      | _ \<Rightarrow> None)"

text \<open>
  "Add Placeable \& Check Overlap" for the candidate \<open>new_obj\<close>. \<open>shuffle\<close> is the
  effect of \<^verbatim>\<open>random.shuffle\<close> on the list it is given.
\<close>

definition place :: "(mref list \<Rightarrow> mref list) \<Rightarrow> placeable \<Rightarrow> world \<Rightarrow> world" where
  "place shuffle new_obj w =
     (if can_place new_obj (placeables w)
      then (let w1 = w\<lparr>placeables := placeables w @ [new_obj]\<rparr>
            in if kind new_obj = Hut
               then assign_residents (length (placeables w)) (shuffle (unassigned w1)) 0 w1
               else w1)
      else w)"

text \<open>Allocation of a new Meeple object and \<^verbatim>\<open>meeples.append\<close>.\<close>

definition append_meeple :: "meeple \<Rightarrow> world \<Rightarrow> world" where
  "append_meeple me w =
     w\<lparr>mheap := (mheap w)(next_mref w := me), next_mref := Suc (next_mref w),
       meeples := meeples w @ [next_mref w]\<rparr>"

text \<open>
  "Simulation Area Click" with the tool \<open>t\<close> selected. \<open>now\<close> is the reading of
  \<^verbatim>\<open>time.time()\<close>, \<open>heading\<close> the draw of \<^verbatim>\<open>Meeple.__init__\<close>. Every active
  effect is a Hurricane, so the filter of the hurricane tool
  (\<^verbatim>\<open>not isinstance(e, Hurricane)\<close>) keeps nothing.
\<close>

definition simulation_click ::
    "real \<Rightarrow> real \<Rightarrow> (mref list \<Rightarrow> mref list) \<Rightarrow> tool \<Rightarrow> int \<Rightarrow> int \<Rightarrow> world \<Rightarrow> world" where
  "simulation_click now heading shuffle t mouse_x mouse_y w =
     (case new_placeable t mouse_x mouse_y of
        Some new_obj \<Rightarrow> place shuffle new_obj w
      | None \<Rightarrow>
          (if t = ToolHurricane
           then w\<lparr>active_effects := [] @ [Hurricane mouse_x mouse_y now]\<rparr>
           else if t = ToolRain
           then (if \<not> is_raining w
                 then w\<lparr>is_raining := True, rain_end_time := now + RAIN_DURATION\<rparr>
                 else w\<lparr>is_raining := False\<rparr>)
           else if t = ToolAddMeeple
           then (if blocks_point (mk_Rect (mouse_x - 1) (mouse_y - 1) 2 2) (placeables w)
                 then w
                 else append_meeple
                        (Meeple (real_of_int mouse_x) (real_of_int mouse_y)
                           SIMULATION_WIDTH SCREEN_HEIGHT heading) w)
           else w))"

text \<open>"Event Handling" for one event.\<close>

definition handle_event ::
    "real \<Rightarrow> real \<Rightarrow> (mref list \<Rightarrow> mref list) \<Rightarrow> event \<Rightarrow> world \<Rightarrow> world" where
  "handle_event now heading shuffle ev w =
     (case ev of
        QUIT \<Rightarrow> w\<lparr>running := False\<rparr>
      | KEYDOWN k \<Rightarrow>
          w\<lparr>simulation_speed_multiplier := speed_control k (simulation_speed_multiplier w)\<rparr>
      | MOUSEBUTTONDOWN mouse_x mouse_y \<Rightarrow>
          (if mouse_x \<ge> SIMULATION_WIDTH
           then w\<lparr>selected_tool := toolbar_click mouse_x mouse_y ICON_PADDING TOOLS (selected_tool w)\<rparr>
           else (case selected_tool w of
                   None \<Rightarrow> w
                 | Some t \<Rightarrow> simulation_click now heading shuffle t mouse_x mouse_y w))
      | OTHER_EVENT \<Rightarrow> w)"

text \<open>
  "Update Phase". The loop over the meeples; \<open>rnd k\<close> holds the draws of the
  \<open>k\<close>-th iteration.
\<close>

fun update_meeples ::
    "placeable list \<Rightarrow> real \<Rightarrow> real \<Rightarrow> bool \<Rightarrow> hurricane list \<Rightarrow> real \<Rightarrow> (nat \<Rightarrow> draw) \<Rightarrow> nat
     \<Rightarrow> mref list \<Rightarrow> heap \<Rightarrow> heap" where
  "update_meeples ps ssm dt daytime effects cur rnd k [] h = h"
| "update_meeples ps ssm dt daytime effects cur rnd k (m # ms) h =
     update_meeples ps ssm dt daytime effects cur rnd (Suc k) ms
       (h(m := update ps ssm dt daytime (rnd k)
                 (fold apply_effect effects ((h m)\<lparr>speed_multiplier_effect := cur\<rparr>))))"

text \<open>
  \<open>now\<close> is the reading of \<^verbatim>\<open>time.time()\<close> for the whole phase.
\<close>

definition update_phase :: "real \<Rightarrow> real \<Rightarrow> (nat \<Rightarrow> draw) \<Rightarrow> world \<Rightarrow> world" where
  "update_phase now dt rnd w =
     (let raining = (if is_raining w \<and> now > rain_end_time w then False else is_raining w);
          effects = filter (\<lambda>e. is_active e now) (active_effects w);
          current_speed_mod_rain = (if raining then RAIN_SPEED_MULTIPLIER else 1.0)
      in w\<lparr>is_raining := raining, active_effects := effects,
            mheap := update_meeples (placeables w) (simulation_speed_multiplier w) dt
                       (is_daytime w) effects current_speed_mod_rain rnd 0 (meeples w) (mheap w)\<rparr>)"

text \<open>
  "Create Initial Meeples": one triple of draws (angle, r, heading) for each meeple.
\<close>

definition empty_world :: world where
  "empty_world =
     \<lparr>mheap = (\<lambda>_. undefined), next_mref = 0, meeples = [], placeables = [],
      active_effects = [], is_raining = False, rain_end_time = 0, selected_tool = None,
      simulation_speed_multiplier = 1.0, cycle_timer = 0.0, is_daytime = True,
      running = True\<rparr>"

definition spawn :: "real \<times> real \<times> real \<Rightarrow> meeple" where
  "spawn d =
     (let a = fst d; r = fst (snd d); heading = snd (snd d);
          center_x = SIMULATION_WIDTH div 2; center_y = SCREEN_HEIGHT div 2
      in Meeple (real_of_int center_x + cos a * r) (real_of_int center_y + sin a * r)
           SIMULATION_WIDTH SCREEN_HEIGHT heading)"

definition initial_world :: "(real \<times> real \<times> real) list \<Rightarrow> world" where
  "initial_world ds = fold (\<lambda>d. append_meeple (spawn d)) ds empty_world"

text \<open>
  One iteration of the game loop: the cycle, the events of the frame (each with the
  clock reading and the draws its handler may use), the update phase and the
  collision handling.
\<close>

type_synonym event_input = "real \<times> real \<times> (mref list \<Rightarrow> mref list) \<times> event"

definition handle_events :: "event_input list \<Rightarrow> world \<Rightarrow> world" where
  "handle_events evs w =
     fold (\<lambda>i. handle_event (fst i) (fst (snd i)) (fst (snd (snd i))) (snd (snd (snd i)))) evs w"

definition frame :: "real \<Rightarrow> event_input list \<Rightarrow> real \<Rightarrow> (nat \<Rightarrow> draw) \<Rightarrow> world \<Rightarrow> world" where
  "frame tick evs now rnd w =
     (let dt = frame_dt tick
      in handle_collisions dt (update_phase now dt rnd (handle_events evs (update_cycle dt w))))"

text \<open>
  The states of the program between the phases of the game loop. The phases may follow
  each other in any order here, so these are at least the states the loop goes through.
  \<^verbatim>\<open>random.shuffle\<close> returns a permutation of its argument.
\<close>

inductive reachable :: "world \<Rightarrow> bool" where
  r_init: "length ds = INITIAL_NUM_MEEPLES \<Longrightarrow> reachable (initial_world ds)"
| r_cycle: "reachable w \<Longrightarrow> reachable (update_cycle (frame_dt tick) w)"
| r_event: "reachable w \<Longrightarrow> mset (shuffle (unassigned w)) = mset (unassigned w)
            \<Longrightarrow> reachable (handle_event now heading shuffle ev w)"
| r_update: "reachable w \<Longrightarrow> reachable (update_phase now (frame_dt tick) rnd w)"
| r_collisions: "reachable w \<Longrightarrow> reachable (handle_collisions (frame_dt tick) w)"

subsection \<open>Predicates used in the properties\<close>

text \<open>The guard of \<^verbatim>\<open>assign_home\<close>.\<close>

definition has_room :: "nat \<Rightarrow> world \<Rightarrow> bool" where
  "has_room i w \<longleftrightarrow>
     i < length (placeables w) \<and> kind (placeables w ! i) = Hut \<and>
     length (residents (placeables w ! i)) < max_residents (placeables w ! i)"

text \<open>The capacity bound: no Hut holds more residents than its capacity, which is 4.\<close>

definition cap_bound :: "world \<Rightarrow> bool" where
  "cap_bound w \<longleftrightarrow>
     (\<forall>p \<in> set (placeables w).
        kind p = Hut \<longrightarrow>
          length (residents p) \<le> max_residents p \<and> max_residents p = HUT_MAX_RESIDENTS)"

text \<open>
  The states between single operations: the phases of the loop, and also the steps
  inside a placement (the append of the new object, each call of
  \<^verbatim>\<open>assign_home\<close>), for any meeple, any building and any shuffle.
\<close>

inductive op_reachable :: "world \<Rightarrow> bool" where
  o_init: "length ds = INITIAL_NUM_MEEPLES \<Longrightarrow> op_reachable (initial_world ds)"
| o_cycle: "op_reachable w \<Longrightarrow> op_reachable (update_cycle dt w)"
| o_event: "op_reachable w \<Longrightarrow> op_reachable (handle_event now heading shuffle ev w)"
| o_append: "op_reachable w \<Longrightarrow> new_placeable t mouse_x mouse_y = Some new_obj
             \<Longrightarrow> op_reachable (w\<lparr>placeables := placeables w @ [new_obj]\<rparr>)"
| o_assign: "op_reachable w \<Longrightarrow> op_reachable (snd (assign_home m i w))"
| o_update: "op_reachable w \<Longrightarrow> op_reachable (update_phase now dt rnd w)"
| o_collisions: "op_reachable w \<Longrightarrow> op_reachable (handle_collisions dt w)"

text \<open>
  The membership invariant: the meeples of the collection are distinct allocated
  objects, and every resident of the \<open>i\<close>-th placeable is a meeple of the collection
  whose \<^verbatim>\<open>home\<close> is that placeable, listed once.
\<close>

definition world_inv :: "world \<Rightarrow> bool" where
  "world_inv w \<longleftrightarrow>
     distinct (meeples w) \<and>
     (\<forall>m \<in> set (meeples w). m < next_mref w) \<and>
     (\<forall>i < length (placeables w).
        distinct (residents (placeables w ! i)) \<and>
        (\<forall>m \<in> set (residents (placeables w ! i)).
           m \<in> set (meeples w) \<and> home (mheap w m) = Some i))"

text \<open>Every entry of every resident list is a meeple of the collection.\<close>

definition residents_live :: "world \<Rightarrow> bool" where
  "residents_live w \<longleftrightarrow>
     (\<forall>p \<in> set (placeables w). \<forall>m \<in> set (residents p). m \<in> set (meeples w))"

text \<open>The squared distance of two meeples.\<close>

definition distance_sq :: "heap \<Rightarrow> mref \<Rightarrow> mref \<Rightarrow> real" where
  "distance_sq h a b = (m_x (h a) - m_x (h b))\<^sup>2 + (m_y (h a) - m_y (h b))\<^sup>2"

text \<open>The test \<^verbatim>\<open>is_near_home\<close> of \<^verbatim>\<open>Meeple.update\<close>.\<close>

definition near_home :: "placeable \<Rightarrow> meeple \<Rightarrow> bool" where
  "near_home hut me \<longleftrightarrow>
     (m_x me - real_of_int (centerx (rect hut)))\<^sup>2
       + (m_y me - real_of_int (centery (rect hut)))\<^sup>2 < HOME_PROXIMITY_THRESHOLD\<^sup>2"

text \<open>
  A world just before nightfall (the cycle timer at 29.99 of the 30 seconds of the day):
  one Hut at (100, 100) and its one resident, wandering at \<open>(x0, y0)\<close>.
\<close>

definition dusk_world :: "real \<Rightarrow> real \<Rightarrow> world" where
  "dusk_world x0 y0 =
     \<lparr>mheap = (\<lambda>_. undefined)(0 := (Meeple x0 y0 SIMULATION_WIDTH SCREEN_HEIGHT 0)\<lparr>home := Some 0\<rparr>),
      next_mref = 1, meeples = [0],
      placeables = [(new_Hut 100 100)\<lparr>residents := [0]\<rparr>],
      active_effects = [], is_raining = False, rain_end_time = 0, selected_tool = None,
      simulation_speed_multiplier = 1.0, cycle_timer = 29.99, is_daytime = True,
      running = True\<rparr>"

text \<open>Draws that are all zero.\<close>

definition no_draw :: "nat \<Rightarrow> draw" where
  "no_draw k = \<lparr>wander_draw = 0, spot_angle = 0, spot_radius = 0\<rparr>"

text \<open>The squared distance of a meeple to the centre of a Hole.\<close>

definition hole_distance_sq :: "meeple \<Rightarrow> placeable \<Rightarrow> real" where
  "hole_distance_sq me obs = (m_x me - p_x obs)\<^sup>2 + (m_y me - p_y obs)\<^sup>2"

text \<open>
  The state of the Meeple-Obstacle pass at the moment it makes the Hole check of the
  meeple \<open>m\<close> against the obstacle \<open>obs\<close>: \<open>ms1\<close> are the meeples before \<open>m\<close> in the
  list, \<open>os1\<close> the obstacles before \<open>obs\<close>. The store of this state holds the
  position that the check reads.
\<close>

definition state_at_check ::
    "real \<Rightarrow> world \<Rightarrow> mref list \<Rightarrow> mref \<Rightarrow> placeable list \<Rightarrow> placeable \<Rightarrow> heap \<times> mref list" where
  "state_at_check dt w ms1 m os1 obs =
     (let s1 = obstacle_pass dt ms1 (placeables w) (meeple_pass (meeples w) [] (mheap w), []);
          mrect = meeple_col_rect (fst s1 m)
      in collide_obstacle dt m mrect obs (obstacle_loop dt m mrect os1 s1))"

text \<open>A world with one Hole at (100, 100) and one meeple at \<open>(x0, 100)\<close>.\<close>

definition hole_world :: "real \<Rightarrow> world" where
  "hole_world x0 =
     \<lparr>mheap = (\<lambda>_. undefined)(0 := Meeple x0 100 SIMULATION_WIDTH SCREEN_HEIGHT 0),
      next_mref = 1, meeples = [0],
      placeables = [new_Hole 100 100],
      active_effects = [], is_raining = False, rain_end_time = 0, selected_tool = None,
      simulation_speed_multiplier = 1.0, cycle_timer = 0, is_daytime = True,
      running = True\<rparr>"

section \<open>Properties\<close>

subsection \<open>Fields that an operation leaves alone\<close>

lemma assign_home_ssm [simp]:
  "simulation_speed_multiplier (snd (assign_home m i w)) = simulation_speed_multiplier w"
  by (simp add: assign_home_def)

lemma assign_residents_ssm [simp]:
  "simulation_speed_multiplier (assign_residents i ms c w) = simulation_speed_multiplier w"
  by (induction i ms c w rule: assign_residents.induct) simp_all

lemma place_ssm [simp]:
  "simulation_speed_multiplier (place sh p w) = simulation_speed_multiplier w"
  by (simp add: place_def Let_def)

lemma append_meeple_ssm [simp]:
  "simulation_speed_multiplier (append_meeple me w) = simulation_speed_multiplier w"
  by (simp add: append_meeple_def)

lemma simulation_click_ssm [simp]:
  "simulation_speed_multiplier (simulation_click now hdg sh t x y w) =
     simulation_speed_multiplier w"
  by (simp add: simulation_click_def split: option.splits)

lemma spawn_all_ssm [simp]:
  "simulation_speed_multiplier (fold (\<lambda>d. append_meeple (spawn d)) ds w) =
     simulation_speed_multiplier w"
  by (induction ds arbitrary: w) simp_all

subsection \<open>The resident assignment loop\<close>

lemma assign_home_fst: "fst (assign_home m i w) = has_room i w"
  by (simp add: assign_home_def has_room_def)

lemma assign_home_full: "\<not> has_room i w \<Longrightarrow> snd (assign_home m i w) = w"
  by (auto simp add: assign_home_def has_room_def)

lemma assign_home_placeables:
  "has_room i w \<Longrightarrow> placeables (snd (assign_home m i w)) =
     (placeables w)[i := (placeables w ! i)\<lparr>residents := residents (placeables w ! i) @ [m]\<rparr>]"
  by (simp add: assign_home_def has_room_def)

lemma assign_home_mheap:
  "has_room i w \<Longrightarrow> mheap (snd (assign_home m i w)) =
     (mheap w)(m := (mheap w m)\<lparr>home := Some i\<rparr>)"
  by (simp add: assign_home_def has_room_def)

lemma assign_residents_Cons:
  "assign_residents i (m # ms) c w =
     (if has_room i w
      then (if c + 1 \<ge> max_residents (placeables w ! i)
            then snd (assign_home m i w)
            else assign_residents i ms (c + 1) (snd (assign_home m i w)))
      else assign_residents i ms c w)"
  by (simp add: assign_home_fst assign_home_full assign_home_placeables has_room_def)

lemma assign_residents_placeables:
  "i < length (placeables w) \<Longrightarrow> kind (placeables w ! i) = Hut \<Longrightarrow>
   c = length (residents (placeables w ! i)) \<Longrightarrow>
   placeables (assign_residents i ms c w) =
     (placeables w)[i := (placeables w ! i)\<lparr>residents := residents (placeables w ! i)
                                    @ take (max_residents (placeables w ! i) - c) ms\<rparr>]"
proof (induction ms arbitrary: w c)
  case Nil
  then show ?case by simp
next
  case (Cons m ms)
  let ?p = "placeables w ! i"
  let ?w1 = "snd (assign_home m i w)"
  show ?case
  proof (cases "has_room i w")
    case False
    then have k: "max_residents ?p - c = 0" using Cons.prems by (simp add: has_room_def)
    have "placeables (assign_residents i (m # ms) c w) = placeables (assign_residents i ms c w)"
      using False by (simp only: assign_residents_Cons if_False)
    also have "\<dots> = (placeables w)[i := ?p\<lparr>residents := residents ?p @ take (max_residents ?p - c) ms\<rparr>]"
      using Cons.prems by (intro Cons.IH)
    finally show ?thesis by (simp add: k)
  next
    case True
    have p1: "placeables ?w1 = (placeables w)[i := ?p\<lparr>residents := residents ?p @ [m]\<rparr>]"
      using True by (rule assign_home_placeables)
    have p1i: "placeables ?w1 ! i = ?p\<lparr>residents := residents ?p @ [m]\<rparr>"
      using Cons.prems(1) by (simp add: p1)
    obtain k where k: "max_residents ?p - c = Suc k"
      using True Cons.prems by (cases "max_residents ?p - c") (auto simp: has_room_def)
    show ?thesis
    proof (cases "c + 1 \<ge> max_residents ?p")
      case True
      with k have k0: "k = 0" by simp
      have "placeables (assign_residents i (m # ms) c w) = placeables ?w1"
        using \<open>has_room i w\<close> True by (simp only: assign_residents_Cons if_True)
      then show ?thesis by (simp add: p1 k k0)
    next
      case False
      have "placeables (assign_residents i (m # ms) c w) = placeables (assign_residents i ms (c + 1) ?w1)"
        using \<open>has_room i w\<close> False by (simp only: assign_residents_Cons if_True if_False)
      also have "\<dots> = (placeables ?w1)[i := (placeables ?w1 ! i)\<lparr>residents := residents (placeables ?w1 ! i)
                                    @ take (max_residents (placeables ?w1 ! i) - (c + 1)) ms\<rparr>]"
        using Cons.prems by (intro Cons.IH) (simp_all add: p1)
      also have "\<dots> = (placeables w)[i := ?p\<lparr>residents := residents ?p @ take (max_residents ?p - c) (m # ms)\<rparr>]"
      proof -
        from k have "max_residents ?p - Suc c = k" by simp
        then show ?thesis using k by (simp add: p1i) (simp add: p1)
      qed
      finally show ?thesis .
    qed
  qed
qed

lemma assign_residents_mheap:
  "i < length (placeables w) \<Longrightarrow> kind (placeables w ! i) = Hut \<Longrightarrow>
   c = length (residents (placeables w ! i)) \<Longrightarrow>
   mheap (assign_residents i ms c w) m' =
     (if m' \<in> set (take (max_residents (placeables w ! i) - c) ms)
      then (mheap w m')\<lparr>home := Some i\<rparr> else mheap w m')"
proof (induction ms arbitrary: w c)
  case Nil
  then show ?case by simp
next
  case (Cons m ms)
  let ?p = "placeables w ! i"
  let ?w1 = "snd (assign_home m i w)"
  show ?case
  proof (cases "has_room i w")
    case False
    then have k: "max_residents ?p - c = 0" using Cons.prems by (simp add: has_room_def)
    have "mheap (assign_residents i (m # ms) c w) m' = mheap (assign_residents i ms c w) m'"
      using False by (simp only: assign_residents_Cons if_False)
    also have "\<dots> = (if m' \<in> set (take (max_residents ?p - c) ms)
      then (mheap w m')\<lparr>home := Some i\<rparr> else mheap w m')"
      using Cons.prems by (intro Cons.IH)
    finally show ?thesis by (simp add: k)
  next
    case True
    have p1: "placeables ?w1 = (placeables w)[i := ?p\<lparr>residents := residents ?p @ [m]\<rparr>]"
      using True by (rule assign_home_placeables)
    have h1: "mheap ?w1 = (mheap w)(m := (mheap w m)\<lparr>home := Some i\<rparr>)"
      using True by (rule assign_home_mheap)
    have p1i: "placeables ?w1 ! i = ?p\<lparr>residents := residents ?p @ [m]\<rparr>"
      using Cons.prems(1) by (simp add: p1)
    obtain k where k: "max_residents ?p - c = Suc k"
      using True Cons.prems by (cases "max_residents ?p - c") (auto simp: has_room_def)
    show ?thesis
    proof (cases "c + 1 \<ge> max_residents ?p")
      case True
      with k have k0: "k = 0" by simp
      have "mheap (assign_residents i (m # ms) c w) m' = mheap ?w1 m'"
        using \<open>has_room i w\<close> True by (simp only: assign_residents_Cons if_True)
      then show ?thesis by (simp add: h1 k k0)
    next
      case False
      from k have k': "max_residents ?p - Suc c = k" by simp
      have "mheap (assign_residents i (m # ms) c w) m' = mheap (assign_residents i ms (c + 1) ?w1) m'"
        using \<open>has_room i w\<close> False by (simp only: assign_residents_Cons if_True if_False)
      also have "\<dots> = (if m' \<in> set (take (max_residents (placeables ?w1 ! i) - (c + 1)) ms)
           then (mheap ?w1 m')\<lparr>home := Some i\<rparr> else mheap ?w1 m')"
        using Cons.prems by (intro Cons.IH) (simp_all add: p1)
      also have "\<dots> = (if m' \<in> set (take (max_residents ?p - c) (m # ms))
           then (mheap w m')\<lparr>home := Some i\<rparr> else mheap w m')"
        using k k' by (simp add: p1i h1)
      finally show ?thesis .
    qed
  qed
qed

lemma assign_home_meeples [simp]: "meeples (snd (assign_home m i w)) = meeples w"
  by (simp add: assign_home_def)

lemma assign_home_next_mref [simp]: "next_mref (snd (assign_home m i w)) = next_mref w"
  by (simp add: assign_home_def)

lemma assign_residents_meeples [simp]: "meeples (assign_residents i ms c w) = meeples w"
  by (induction i ms c w rule: assign_residents.induct) simp_all

lemma assign_residents_next_mref [simp]: "next_mref (assign_residents i ms c w) = next_mref w"
  by (induction i ms c w rule: assign_residents.induct) simp_all

lemma initial_world_ssm [simp]: "simulation_speed_multiplier (initial_world ds) = 1"
  by (simp add: initial_world_def empty_world_def)

subsection \<open>The initial world\<close>

lemma initial_world_snoc:
  "initial_world (ds @ [d]) = append_meeple (spawn d) (initial_world ds)"
  by (simp add: initial_world_def)

lemma initial_world_next_mref [simp]: "next_mref (initial_world ds) = length ds"
  by (induction ds rule: rev_induct)
     (simp_all add: initial_world_snoc append_meeple_def, simp add: initial_world_def empty_world_def)

lemma initial_world_meeples [simp]: "meeples (initial_world ds) = [0..<length ds]"
  by (induction ds rule: rev_induct)
     (simp_all add: initial_world_snoc append_meeple_def, simp add: initial_world_def empty_world_def)

lemma initial_world_placeables [simp]: "placeables (initial_world ds) = []"
  by (induction ds rule: rev_induct)
     (simp_all add: initial_world_snoc append_meeple_def, simp add: initial_world_def empty_world_def)

lemma initial_world_mheap:
  "m < length ds \<Longrightarrow> mheap (initial_world ds) m = spawn (ds ! m)"
  by (induction ds rule: rev_induct)
     (auto simp add: initial_world_snoc append_meeple_def nth_append less_Suc_eq)

lemma home_spawn [simp]: "home (spawn d) = None"
  by (simp add: spawn_def Meeple_def Let_def)

lemma initial_world_unassigned [simp]: "unassigned (initial_world ds) = [0..<length ds]"
  by (simp add: unassigned_def initial_world_mheap filter_id_conv)

lemma unassigned_selected_tool [simp]: "unassigned (w\<lparr>selected_tool := t\<rparr>) = unassigned w"
  by (simp add: unassigned_def)

subsection \<open>Speed control\<close>

lemma speed_control_bounds:
  "MIN_SPEED_MULT \<le> speed_control k v \<and> speed_control k v \<le> MAX_SPEED_MULT"
  by (simp add: speed_control_def Let_def MIN_SPEED_MULT_def MAX_SPEED_MULT_def)

lemma reachable_start: "reachable (initial_world (replicate 20 (0, 0, 0)))"
  by (rule reachable.r_init) (simp add: INITIAL_NUM_MEEPLES_def)

text \<open>
  Claim C7. The global speed multiplier stays within
  \<open>[MIN_SPEED_MULT, MAX_SPEED_MULT] = [0.2, 5.0]\<close> in every state of the program:
  it starts at 1.0, only a key press changes it, and every key press ends with the
  clamp.
\<close>

theorem speed_multiplier_clamped:
  "reachable w \<Longrightarrow>
     MIN_SPEED_MULT \<le> simulation_speed_multiplier w \<and>
     simulation_speed_multiplier w \<le> MAX_SPEED_MULT"
proof (induction rule: reachable.induct)
  case (r_init ds)
  show ?case
    by (simp add: MIN_SPEED_MULT_def MAX_SPEED_MULT_def)
next
  case (r_cycle w tick)
  then show ?case by (simp add: update_cycle_def Let_def)
next
  case (r_event w shuffle now heading ev)
  then show ?case
    using speed_control_bounds
    by (cases ev) (simp_all add: handle_event_def split: option.splits)
next
  case (r_update w now tick rnd)
  then show ?case by (simp add: update_phase_def Let_def)
next
  case (r_collisions w tick)
  then show ?case by (simp add: handle_collisions_def Let_def)
qed

theorem speed_multiplier_clamped_witness:
  "MIN_SPEED_MULT \<le> simulation_speed_multiplier
      (handle_event 0 0 id (KEYDOWN K_PLUS) (initial_world (replicate 20 (0, 0, 0)))) \<and>
   simulation_speed_multiplier
      (handle_event 0 0 id (KEYDOWN K_PLUS) (initial_world (replicate 20 (0, 0, 0))))
     \<le> MAX_SPEED_MULT \<and>
   simulation_speed_multiplier
      (handle_event 0 0 id (KEYDOWN K_PLUS) (initial_world (replicate 20 (0, 0, 0)))) = 1.2"
proof -
  have r: "reachable (handle_event 0 0 id (KEYDOWN K_PLUS) (initial_world (replicate 20 (0, 0, 0))))"
    by (rule reachable.r_event [OF reachable_start]) simp
  have v: "simulation_speed_multiplier
      (handle_event 0 0 id (KEYDOWN K_PLUS) (initial_world (replicate 20 (0, 0, 0)))) = 1.2"
    by (simp add: handle_event_def speed_control_def
        SPEED_CHANGE_STEP_def MIN_SPEED_MULT_def MAX_SPEED_MULT_def)
  from speed_multiplier_clamped [OF r] v show ?thesis by simp
qed

subsection \<open>Placement\<close>

lemma overlaps_existing_iff:
  "overlaps_existing r ps \<longleftrightarrow> (\<exists>e \<in> set ps. colliderect r (collision_rect e))"
  by (induction ps) (auto simp: colliderect_def)

lemma can_place_iff:
  "can_place new_obj ps \<longleftrightarrow>
     \<not> (\<exists>e \<in> set ps. colliderect (collision_rect new_obj) (collision_rect e))"
  by (auto simp: can_place_def overlaps_existing_iff colliderect_def)

lemma unassigned_append [simp]:
  "unassigned (w\<lparr>placeables := ps\<rparr>) = unassigned w"
  by (simp add: unassigned_def)

lemma place_rejected: "\<not> can_place new_obj (placeables w) \<Longrightarrow> place sh new_obj w = w"
  by (simp add: place_def)

lemma place_placeables:
  "can_place new_obj (placeables w) \<Longrightarrow> residents new_obj = [] \<Longrightarrow>
   placeables (place sh new_obj w) =
     placeables w @ [new_obj\<lparr>residents :=
        (if kind new_obj = Hut then take (max_residents new_obj) (sh (unassigned w)) else [])\<rparr>]"
  by (simp add: place_def Let_def assign_residents_placeables nth_append)

lemma place_mheap:
  "can_place new_obj (placeables w) \<Longrightarrow> residents new_obj = [] \<Longrightarrow>
   mheap (place sh new_obj w) m =
     (if kind new_obj = Hut \<and> m \<in> set (take (max_residents new_obj) (sh (unassigned w)))
      then (mheap w m)\<lparr>home := Some (length (placeables w))\<rparr> else mheap w m)"
  by (simp add: place_def Let_def assign_residents_mheap nth_append)

lemma place_meeples [simp]: "meeples (place sh new_obj w) = meeples w"
  by (simp add: place_def Let_def)

lemma place_next_mref [simp]: "next_mref (place sh new_obj w) = next_mref w"
  by (simp add: place_def Let_def)

lemma new_placeable_residents:
  "new_placeable t x y = Some new_obj \<Longrightarrow> residents new_obj = []"
  by (cases t) (auto simp: new_placeable_def new_Hole_def new_Hut_def new_Farm_def
      new_Factory_def new_Tree_def Let_def)

lemma handle_event_place:
  "selected_tool w = Some t \<Longrightarrow> mouse_x < SIMULATION_WIDTH \<Longrightarrow>
   new_placeable t mouse_x mouse_y = Some new_obj \<Longrightarrow>
   handle_event now heading sh (MOUSEBUTTONDOWN mouse_x mouse_y) w = place sh new_obj w"
  by (simp add: handle_event_def simulation_click_def)

text \<open>
  Claim C3. A click in the simulation area with a placing tool selected builds the
  candidate object. If its collision rectangle collides with the collision rectangle
  of an existing placeable, the click leaves the whole world as it was (the
  placeables, the meeples, every resident list and every \<^verbatim>\<open>home\<close>). Otherwise the
  new object is appended to \<^verbatim>\<open>placeables\<close> (a Hut with the residents it has been
  given).
\<close>

theorem placement_overlap_check:
  assumes "selected_tool w = Some t" and "mouse_x < SIMULATION_WIDTH"
    and "new_placeable t mouse_x mouse_y = Some new_obj"
  shows "((\<exists>e \<in> set (placeables w). colliderect (collision_rect new_obj) (collision_rect e)) \<longrightarrow>
            handle_event now heading sh (MOUSEBUTTONDOWN mouse_x mouse_y) w = w) \<and>
         (\<not> (\<exists>e \<in> set (placeables w). colliderect (collision_rect new_obj) (collision_rect e)) \<longrightarrow>
            (\<exists>rs. placeables (handle_event now heading sh (MOUSEBUTTONDOWN mouse_x mouse_y) w)
                    = placeables w @ [new_obj\<lparr>residents := rs\<rparr>]))"
proof -
  have ev: "handle_event now heading sh (MOUSEBUTTONDOWN mouse_x mouse_y) w = place sh new_obj w"
    using assms by (rule handle_event_place)
  have r: "residents new_obj = []" using assms(3) by (rule new_placeable_residents)
  show ?thesis
  proof (intro conjI impI)
    assume "\<exists>e \<in> set (placeables w). colliderect (collision_rect new_obj) (collision_rect e)"
    then have "\<not> can_place new_obj (placeables w)" by (simp add: can_place_iff)
    then show "handle_event now heading sh (MOUSEBUTTONDOWN mouse_x mouse_y) w = w"
      unfolding ev by (rule place_rejected)
  next
    assume "\<not> (\<exists>e \<in> set (placeables w). colliderect (collision_rect new_obj) (collision_rect e))"
    then have "can_place new_obj (placeables w)" by (simp add: can_place_iff)
    from place_placeables [OF this r, of sh]
    show "\<exists>rs. placeables (handle_event now heading sh (MOUSEBUTTONDOWN mouse_x mouse_y) w)
                    = placeables w @ [new_obj\<lparr>residents := rs\<rparr>]"
      unfolding ev by blast
  qed
qed

theorem placement_overlap_check_witness:
  "(\<exists>rs. placeables (handle_event 0 0 id (MOUSEBUTTONDOWN 100 100)
             (empty_world\<lparr>selected_tool := Some ToolTree\<rparr>))
          = placeables (empty_world\<lparr>selected_tool := Some ToolTree\<rparr>)
            @ [(new_Tree 100 100)\<lparr>residents := rs\<rparr>]) \<and>
   handle_event 0 0 id (MOUSEBUTTONDOWN 102 102)
     (empty_world\<lparr>selected_tool := Some ToolTree, placeables := [new_Tree 100 100]\<rparr>)
     = empty_world\<lparr>selected_tool := Some ToolTree, placeables := [new_Tree 100 100]\<rparr>"
proof -
  let ?W0 = "empty_world\<lparr>selected_tool := Some ToolTree\<rparr>"
  let ?W1 = "empty_world\<lparr>selected_tool := Some ToolTree, placeables := [new_Tree 100 100]\<rparr>"
  have s0: "selected_tool ?W0 = Some ToolTree" and s1: "selected_tool ?W1 = Some ToolTree"
    by simp_all
  have x0: "(100::int) < SIMULATION_WIDTH" and x1: "(102::int) < SIMULATION_WIDTH"
    by (simp_all add: SIMULATION_WIDTH_def)
  have n0: "new_placeable ToolTree 100 100 = Some (new_Tree 100 100)"
    and n1: "new_placeable ToolTree 102 102 = Some (new_Tree 102 102)"
    by (simp_all add: new_placeable_def)
  have free: "\<not> (\<exists>e \<in> set (placeables ?W0).
                colliderect (collision_rect (new_Tree 100 100)) (collision_rect e))"
    by (simp add: empty_world_def)
  have hit: "\<exists>e \<in> set (placeables ?W1).
                colliderect (collision_rect (new_Tree 102 102)) (collision_rect e)"
    by (simp add: new_Tree_def Let_def TREE_TRUNK_WIDTH_def mk_Rect_def colliderect_def
        rect_truthy_def)
  from placement_overlap_check [OF s0 x0 n0, of 0 0 id] free
       placement_overlap_check [OF s1 x1 n1, of 0 0 id] hit
  show ?thesis by blast
qed


lemma place_length:
  "residents new_obj = [] \<Longrightarrow> length (placeables (place sh new_obj w)) =
     (if can_place new_obj (placeables w) then Suc (length (placeables w))
      else length (placeables w))"
  by (simp add: place_placeables place_rejected)

lemma place_accepted_iff:
  "residents new_obj = [] \<Longrightarrow> place sh new_obj w = w \<longleftrightarrow> \<not> can_place new_obj (placeables w)"
proof
  assume r: "residents new_obj = []" and e: "place sh new_obj w = w"
  show "\<not> can_place new_obj (placeables w)"
  proof
    assume "can_place new_obj (placeables w)"
    with r have "length (placeables (place sh new_obj w)) = Suc (length (placeables w))"
      by (simp add: place_length)
    with e show False by simp
  qed
qed (simp add: place_rejected)

text \<open>
  Claim C10. Whether a placement is accepted depends on the existing placeables only:
  two worlds with the same list of placeables, whatever their meeples, accept or reject
  the same object at the same position together. In particular a world without
  placeables accepts it, wherever its meeples are.
\<close>

theorem placement_ignores_agents:
  assumes "placeables w1 = placeables w2"
    and "selected_tool w1 = Some t" and "selected_tool w2 = Some t"
    and "mouse_x < SIMULATION_WIDTH"
    and "new_placeable t mouse_x mouse_y = Some new_obj"
  shows "(handle_event now1 heading1 sh1 (MOUSEBUTTONDOWN mouse_x mouse_y) w1 = w1
            \<longleftrightarrow> handle_event now2 heading2 sh2 (MOUSEBUTTONDOWN mouse_x mouse_y) w2 = w2) \<and>
         (length (placeables (handle_event now1 heading1 sh1 (MOUSEBUTTONDOWN mouse_x mouse_y) w1))
              = Suc (length (placeables w1))
            \<longleftrightarrow> length (placeables (handle_event now2 heading2 sh2 (MOUSEBUTTONDOWN mouse_x mouse_y) w2))
              = Suc (length (placeables w2))) \<and>
         (length (placeables (handle_event now1 heading1 sh1 (MOUSEBUTTONDOWN mouse_x mouse_y) w1))
              = Suc (length (placeables w1))
            \<longleftrightarrow> handle_event now1 heading1 sh1 (MOUSEBUTTONDOWN mouse_x mouse_y) w1 \<noteq> w1) \<and>
         (placeables w1 = [] \<longrightarrow>
            length (placeables (handle_event now1 heading1 sh1 (MOUSEBUTTONDOWN mouse_x mouse_y) w1))
              = Suc (length (placeables w1)))"
proof -
  have r: "residents new_obj = []" using assms(5) by (rule new_placeable_residents)
  have e1: "handle_event now1 heading1 sh1 (MOUSEBUTTONDOWN mouse_x mouse_y) w1 = place sh1 new_obj w1"
    using assms(2,4,5) by (rule handle_event_place)
  have e2: "handle_event now2 heading2 sh2 (MOUSEBUTTONDOWN mouse_x mouse_y) w2 = place sh2 new_obj w2"
    using assms(3,4,5) by (rule handle_event_place)
  show ?thesis
    unfolding e1 e2 using assms(1)
    by (simp add: place_accepted_iff [OF r] place_length [OF r] can_place_def)
qed

theorem placement_ignores_agents_witness:
  "length (placeables (handle_event 0 0 id (MOUSEBUTTONDOWN 400 300)
       ((initial_world (replicate 20 (0, 0, 0)))\<lparr>selected_tool := Some ToolHole\<rparr>)))
     = Suc (length (placeables
         ((initial_world (replicate 20 (0, 0, 0)))\<lparr>selected_tool := Some ToolHole\<rparr>))) \<and>
   (handle_event 0 0 id (MOUSEBUTTONDOWN 400 300)
       ((initial_world (replicate 20 (0, 0, 0)))\<lparr>selected_tool := Some ToolHole\<rparr>)
      = (initial_world (replicate 20 (0, 0, 0)))\<lparr>selected_tool := Some ToolHole\<rparr>)
     = (handle_event 0 0 id (MOUSEBUTTONDOWN 400 300) (empty_world\<lparr>selected_tool := Some ToolHole\<rparr>)
      = empty_world\<lparr>selected_tool := Some ToolHole\<rparr>)"
proof -
  let ?w1 = "(initial_world (replicate 20 (0, 0, 0)))\<lparr>selected_tool := Some ToolHole\<rparr>"
  let ?w2 = "empty_world\<lparr>selected_tool := Some ToolHole\<rparr>"
  have p: "placeables ?w1 = placeables ?w2" by (simp add: empty_world_def)
  have s1: "selected_tool ?w1 = Some ToolHole" and s2: "selected_tool ?w2 = Some ToolHole"
    by simp_all
  have x: "(400::int) < SIMULATION_WIDTH" by (simp add: SIMULATION_WIDTH_def)
  have n: "new_placeable ToolHole 400 300 = Some (new_Hole 400 300)"
    by (simp add: new_placeable_def)
  have e: "placeables ?w1 = []" by simp
  from placement_ignores_agents [OF p s1 s2 x n, of 0 0 id 0 0 id] e
  show ?thesis by simp
qed

text \<open>
  Claim C4. When a Hut of capacity \<open>C\<close> is placed in a world with \<open>H\<close> homeless
  meeples, exactly \<open>min C H\<close> of them end with \<^verbatim>\<open>home\<close> set to the new Hut; the
  resident list of the Hut holds exactly these, each once, and they are the first
  \<open>min C H\<close> elements of the order that \<^verbatim>\<open>random.shuffle\<close> has produced, whichever
  permutation that is. The capacity is 4, so with 10 homeless meeples exactly 4 are
  assigned.
\<close>

theorem hut_assignment_count:
  assumes sel: "selected_tool w = Some ToolHut" and mx: "mouse_x < SIMULATION_WIDTH"
    and free: "\<not> (\<exists>e \<in> set (placeables w).
                  colliderect (collision_rect (new_Hut mouse_x mouse_y)) (collision_rect e))"
    and dist: "distinct (meeples w)"
    and perm: "mset (sh (unassigned w)) = mset (unassigned w)"
  shows "let w' = handle_event now heading sh (MOUSEBUTTONDOWN mouse_x mouse_y) w;
             n = length (placeables w);
             C = max_residents (new_Hut mouse_x mouse_y);
             H = length (unassigned w)
         in placeables w' = placeables w @ [placeables w' ! n] \<and>
            length (filter (\<lambda>m. home (mheap w' m) = Some n) (unassigned w)) = min C H \<and>
            residents (placeables w' ! n) = take C (sh (unassigned w)) \<and>
            distinct (residents (placeables w' ! n)) \<and>
            set (residents (placeables w' ! n))
              = {m \<in> set (unassigned w). home (mheap w' m) = Some n} \<and>
            C = 4 \<and>
            (H = 10 \<longrightarrow>
               length (filter (\<lambda>m. home (mheap w' m) = Some n) (unassigned w)) = 4)"
proof -
  let ?hut = "new_Hut mouse_x mouse_y"
  let ?w' = "handle_event now heading sh (MOUSEBUTTONDOWN mouse_x mouse_y) w"
  let ?n = "length (placeables w)"
  let ?C = "max_residents ?hut"
  let ?U = "unassigned w"
  let ?S = "take ?C (sh ?U)"
  have np: "new_placeable ToolHut mouse_x mouse_y = Some ?hut" by (simp add: new_placeable_def)
  have ev: "?w' = place sh ?hut w" using sel mx np by (rule handle_event_place)
  have r: "residents ?hut = []" using np by (rule new_placeable_residents)
  have k: "kind ?hut = Hut" by (simp add: new_Hut_def Let_def)
  have C4: "?C = 4" by (simp add: new_Hut_def Let_def HUT_MAX_RESIDENTS_def)
  have cp: "can_place ?hut (placeables w)" using free by (simp add: can_place_iff)
  have ps: "placeables ?w' = placeables w @ [?hut\<lparr>residents := ?S\<rparr>]"
    unfolding ev using place_placeables [OF cp r, of sh] k by simp
  then have res: "residents (placeables ?w' ! ?n) = ?S" by simp
  have hp: "\<And>m. mheap ?w' m = (if m \<in> set ?S then (mheap w m)\<lparr>home := Some ?n\<rparr> else mheap w m)"
    unfolding ev using place_mheap [OF cp r, of sh] k by simp
  have dU: "distinct ?U" using dist by (simp add: unassigned_def)
  have dsh: "distinct (sh ?U)" using perm dU by (metis mset_eq_imp_distinct_iff)
  have ssh: "set (sh ?U) = set ?U" using perm by (rule mset_eq_setD)
  have lsh: "length (sh ?U) = length ?U" using perm by (rule mset_eq_length)
  have dS: "distinct ?S" using dsh by simp
  have sS: "set ?S \<subseteq> set ?U" using ssh set_take_subset [of ?C "sh ?U"] by simp
  have hU: "\<And>m. m \<in> set ?U \<Longrightarrow> home (mheap w m) = None" by (simp add: unassigned_def)
  have iff: "\<And>m. m \<in> set ?U \<Longrightarrow> home (mheap ?w' m) = Some ?n \<longleftrightarrow> m \<in> set ?S"
    using hU by (simp add: hp)
  have "filter (\<lambda>m. home (mheap ?w' m) = Some ?n) ?U = filter (\<lambda>m. m \<in> set ?S) ?U"
    using iff by (intro filter_cong) simp_all
  then have "length (filter (\<lambda>m. home (mheap ?w' m) = Some ?n) ?U)
               = card ({m. m \<in> set ?S} \<inter> set ?U)"
    using dU by (simp add: distinct_length_filter)
  also have "{m. m \<in> set ?S} \<inter> set ?U = set ?S" using sS by auto
  also have "card (set ?S) = length ?S" using dS by (rule distinct_card)
  also have "\<dots> = min ?C (length ?U)" by (simp add: lsh min.commute)
  finally have cnt: "length (filter (\<lambda>m. home (mheap ?w' m) = Some ?n) ?U) = min ?C (length ?U)" .
  have seteq: "set (residents (placeables ?w' ! ?n)) = {m \<in> set ?U. home (mheap ?w' m) = Some ?n}"
    unfolding res using iff sS by auto
  have app: "placeables ?w' = placeables w @ [placeables ?w' ! ?n]" using ps by simp
  show ?thesis
    unfolding Let_def using app cnt res dS seteq C4 by simp
qed

theorem hut_assignment_count_witness:
  "length (filter (\<lambda>m. home (mheap (handle_event 0 0 rev (MOUSEBUTTONDOWN 100 100)
                      ((initial_world (replicate 10 (0, 0, 0)))\<lparr>selected_tool := Some ToolHut\<rparr>)) m) = Some 0)
       (unassigned (initial_world (replicate 10 (0, 0, 0))))) = 4 \<and>
   residents (placeables (handle_event 0 0 rev (MOUSEBUTTONDOWN 100 100)
        ((initial_world (replicate 10 (0, 0, 0)))\<lparr>selected_tool := Some ToolHut\<rparr>)) ! 0)
     = [9, 8, 7, 6]"
proof -
  let ?W = "(initial_world (replicate 10 (0, 0, 0)))\<lparr>selected_tool := Some ToolHut\<rparr>"
  have 1: "selected_tool ?W = Some ToolHut" by simp
  have 2: "(100::int) < SIMULATION_WIDTH" by (simp add: SIMULATION_WIDTH_def)
  have 3: "\<not> (\<exists>e \<in> set (placeables ?W).
                  colliderect (collision_rect (new_Hut 100 100)) (collision_rect e))" by simp
  have 4: "distinct (meeples ?W)" by simp
  have 5: "mset (rev (unassigned ?W)) = mset (unassigned ?W)" by simp
  have u: "rev [0..<10] = [9, 8, 7, 6, 5, 4, 3, 2, 1, 0::nat]" by (simp add: upt_rec)
  from hut_assignment_count [where sh = rev and w = ?W and now = 0 and heading = 0, OF 1 2 3 4 5] u
  show ?thesis
    by (simp add: Let_def new_Hut_def HUT_MAX_RESIDENTS_def)
qed

subsection \<open>Fields that the update and the collision passes leave alone\<close>

lemma update_state_keeps:
  "home (update_state ps daytime d me) = home me"
  "speed_multiplier_effect (update_state ps daytime d me) = speed_multiplier_effect me"
  by (simp_all add: update_state_def Let_def split: option.split)

lemma update_movement_keeps:
  "home (update_movement ssm dt d me) = home me"
  "speed_multiplier_effect (update_movement ssm dt d me) = speed_multiplier_effect me"
  "state (update_movement ssm dt d me) = state me"
  "target_pos (update_movement ssm dt d me) = target_pos me"
  by (simp_all add: update_movement_def Let_def)

lemma update_boundary_keeps:
  "home (update_boundary me) = home me"
  "speed_multiplier_effect (update_boundary me) = speed_multiplier_effect me"
  "state (update_boundary me) = state me"
  "target_pos (update_boundary me) = target_pos me"
  by (simp_all add: update_boundary_def Let_def)

lemma update_keeps:
  "home (update ps ssm dt daytime d me) = home me"
  "speed_multiplier_effect (update ps ssm dt daytime d me) = speed_multiplier_effect me"
  by (simp_all add: update_def update_state_keeps update_movement_keeps update_boundary_keeps)

lemma apply_effect_keeps:
  "home (apply_effect e me) = home me"
  "speed_multiplier_effect (apply_effect e me) = speed_multiplier_effect me"
  "state (apply_effect e me) = state me"
  "target_pos (apply_effect e me) = target_pos me"
  "m_x (apply_effect e me) = m_x me"
  "m_y (apply_effect e me) = m_y me"
  by (simp_all add: apply_effect_def apply_force_def Let_def)

lemma fold_apply_effect_keeps:
  "home (fold apply_effect es me) = home me"
  "speed_multiplier_effect (fold apply_effect es me) = speed_multiplier_effect me"
  "state (fold apply_effect es me) = state me"
  "target_pos (fold apply_effect es me) = target_pos me"
  "m_x (fold apply_effect es me) = m_x me"
  "m_y (fold apply_effect es me) = m_y me"
  by (induction es arbitrary: me; simp add: apply_effect_keeps)+

lemma update_meeples_home:
  "home (update_meeples ps ssm dt daytime es cur rnd k ms h m) = home (h m)"
  by (induction ms arbitrary: h k) (simp_all add: update_keeps fold_apply_effect_keeps)

lemma update_meeples_speed_effect_kept:
  "speed_multiplier_effect (h m) = cur \<Longrightarrow>
   speed_multiplier_effect (update_meeples ps ssm dt daytime es cur rnd k ms h m) = cur"
  by (induction ms arbitrary: h k) (simp_all add: update_keeps fold_apply_effect_keeps)

lemma update_meeples_speed_effect:
  "m \<in> set ms \<Longrightarrow>
   speed_multiplier_effect (update_meeples ps ssm dt daytime es cur rnd k ms h m) = cur"
proof (induction ms arbitrary: h k)
  case Nil
  then show ?case by simp
next
  case (Cons a ms)
  show ?case
  proof (cases "m = a")
    case True
    then show ?thesis
      by (simp add: update_meeples_speed_effect_kept update_keeps fold_apply_effect_keeps)
  next
    case False
    with Cons show ?thesis by simp
  qed
qed

lemma push_pair_keeps:
  "home (push_pair a b h m) = home (h m)"
  "speed_multiplier_effect (push_pair a b h m) = speed_multiplier_effect (h m)"
  "collision_radius (push_pair a b h m) = collision_radius (h m)"
  "state (push_pair a b h m) = state (h m)"
  "target_pos (push_pair a b h m) = target_pos (h m)"
  by (simp_all add: push_pair_def Let_def)

lemma pair_loop_keeps:
  "home (pair_loop a bs rm h m) = home (h m)"
  "speed_multiplier_effect (pair_loop a bs rm h m) = speed_multiplier_effect (h m)"
  "state (pair_loop a bs rm h m) = state (h m)"
  "target_pos (pair_loop a bs rm h m) = target_pos (h m)"
  by (induction bs arbitrary: h; simp add: push_pair_keeps)+

lemma meeple_pass_keeps:
  "home (meeple_pass as rm h m) = home (h m)"
  "speed_multiplier_effect (meeple_pass as rm h m) = speed_multiplier_effect (h m)"
  "state (meeple_pass as rm h m) = state (h m)"
  "target_pos (meeple_pass as rm h m) = target_pos (h m)"
  by (induction as arbitrary: h; simp add: pair_loop_keeps)+

lemma collide_obstacle_keeps:
  "home (fst (collide_obstacle dt m r obs s) m') = home (fst s m')"
  "speed_multiplier_effect (fst (collide_obstacle dt m r obs s) m')
     = speed_multiplier_effect (fst s m')"
  "state (fst (collide_obstacle dt m r obs s) m') = state (fst s m')"
  "target_pos (fst (collide_obstacle dt m r obs s) m') = target_pos (fst s m')"
  by (simp_all add: collide_obstacle_def Let_def)

lemma obstacle_loop_keeps:
  "home (fst (obstacle_loop dt m r os s) m') = home (fst s m')"
  "speed_multiplier_effect (fst (obstacle_loop dt m r os s) m')
     = speed_multiplier_effect (fst s m')"
  "state (fst (obstacle_loop dt m r os s) m') = state (fst s m')"
  "target_pos (fst (obstacle_loop dt m r os s) m') = target_pos (fst s m')"
  by (induction os arbitrary: s; simp add: collide_obstacle_keeps)+

lemma obstacle_pass_keeps:
  "home (fst (obstacle_pass dt ms os s) m') = home (fst s m')"
  "speed_multiplier_effect (fst (obstacle_pass dt ms os s) m')
     = speed_multiplier_effect (fst s m')"
  "state (fst (obstacle_pass dt ms os s) m') = state (fst s m')"
  "target_pos (fst (obstacle_pass dt ms os s) m') = target_pos (fst s m')"
  by (induction ms arbitrary: s; simp add: obstacle_loop_keeps)+

lemma collision_passes_keeps:
  "home (fst (collision_passes dt w) m) = home (mheap w m)"
  "speed_multiplier_effect (fst (collision_passes dt w) m) = speed_multiplier_effect (mheap w m)"
  "state (fst (collision_passes dt w) m) = state (mheap w m)"
  "target_pos (fst (collision_passes dt w) m) = target_pos (mheap w m)"
  by (simp_all add: collision_passes_def obstacle_pass_keeps meeple_pass_keeps)

subsection \<open>Rain\<close>

lemma handle_collisions_fields [simp]:
  "is_raining (handle_collisions dt w) = is_raining w"
  "rain_end_time (handle_collisions dt w) = rain_end_time w"
  "next_mref (handle_collisions dt w) = next_mref w"
  "mheap (handle_collisions dt w) = fst (collision_passes dt w)"
  "meeples (handle_collisions dt w)
     = filter (\<lambda>m. m \<notin> set (snd (collision_passes dt w))) (meeples w)"
  by (simp_all add: handle_collisions_def Let_def)

lemma update_phase_fields [simp]:
  "meeples (update_phase now dt rnd w) = meeples w"
  "placeables (update_phase now dt rnd w) = placeables w"
  "next_mref (update_phase now dt rnd w) = next_mref w"
  "rain_end_time (update_phase now dt rnd w) = rain_end_time w"
  "is_raining (update_phase now dt rnd w) = (is_raining w \<and> now \<le> rain_end_time w)"
  "is_daytime (update_phase now dt rnd w) = is_daytime w"
  by (auto simp add: update_phase_def Let_def)

lemma update_phase_speed_effect:
  "m \<in> set (meeples w) \<Longrightarrow>
   speed_multiplier_effect (mheap (update_phase now dt rnd w) m)
     = (if is_raining w \<and> now \<le> rain_end_time w then RAIN_SPEED_MULTIPLIER else 1)"
  by (auto simp add: update_phase_def Let_def update_meeples_speed_effect)

text \<open>
  Claim C8. Let \<open>w\<close> be the state after the events of a frame. While the rain is
  active (\<open>is_raining\<close>, and the clock has not passed \<open>rain_end_time\<close>), the update
  phase sets the \<^verbatim>\<open>speed_multiplier_effect\<close> of every meeple to
  \<open>RAIN_SPEED_MULTIPLIER = 0.6\<close>, and it is still 0.6 at the end of the frame. Once
  the clock has passed \<open>rain_end_time\<close>, the update phase itself switches the rain
  off and sets every meeple's multiplier to 1.0; in every later frame, without rain,
  it is set to 1.0 again. Switching the rain on sets \<open>rain_end_time\<close> to the clock
  reading plus \<open>RAIN_DURATION = 10\<close>.
\<close>

theorem rain_slowdown:
  "let w1 = update_phase now dt rnd w; w2 = handle_collisions dt w1
   in (is_raining w \<and> now \<le> rain_end_time w \<longrightarrow>
         is_raining w2 \<and> rain_end_time w2 = rain_end_time w \<and>
         (\<forall>m \<in> set (meeples w1). speed_multiplier_effect (mheap w1 m) = RAIN_SPEED_MULTIPLIER) \<and>
         (\<forall>m \<in> set (meeples w2). speed_multiplier_effect (mheap w2 m) = RAIN_SPEED_MULTIPLIER)) \<and>
      (is_raining w \<and> now > rain_end_time w \<longrightarrow>
         \<not> is_raining w2 \<and>
         (\<forall>m \<in> set (meeples w1). speed_multiplier_effect (mheap w1 m) = 1) \<and>
         (\<forall>m \<in> set (meeples w2). speed_multiplier_effect (mheap w2 m) = 1)) \<and>
      (\<not> is_raining w \<longrightarrow>
         \<not> is_raining w2 \<and>
         (\<forall>m \<in> set (meeples w1). speed_multiplier_effect (mheap w1 m) = 1) \<and>
         (\<forall>m \<in> set (meeples w2). speed_multiplier_effect (mheap w2 m) = 1)) \<and>
      RAIN_SPEED_MULTIPLIER = 0.6 \<and>
      (\<not> is_raining w \<longrightarrow>
         is_raining (simulation_click now heading sh ToolRain mouse_x mouse_y w) \<and>
         rain_end_time (simulation_click now heading sh ToolRain mouse_x mouse_y w)
           = now + RAIN_DURATION) \<and>
      RAIN_DURATION = 10"
  by (auto simp add: Let_def update_phase_speed_effect collision_passes_keeps
      RAIN_SPEED_MULTIPLIER_def RAIN_DURATION_def simulation_click_def new_placeable_def)


theorem rain_slowdown_witness:
  "speed_multiplier_effect
     (mheap (update_phase 105 (1/60) (\<lambda>_. \<lparr>wander_draw = 0, spot_angle = 0, spot_radius = 0\<rparr>)
        ((append_meeple (Meeple 100 100 800 600 0) empty_world)
           \<lparr>is_raining := True, rain_end_time := 110\<rparr>)) 0) = 0.6 \<and>
   speed_multiplier_effect
     (mheap (update_phase 111 (1/60) (\<lambda>_. \<lparr>wander_draw = 0, spot_angle = 0, spot_radius = 0\<rparr>)
        ((append_meeple (Meeple 100 100 800 600 0) empty_world)
           \<lparr>is_raining := True, rain_end_time := 110\<rparr>)) 0) = 1 \<and>
   \<not> is_raining
     (handle_collisions (1/60)
       (update_phase 111 (1/60) (\<lambda>_. \<lparr>wander_draw = 0, spot_angle = 0, spot_radius = 0\<rparr>)
        ((append_meeple (Meeple 100 100 800 600 0) empty_world)
           \<lparr>is_raining := True, rain_end_time := 110\<rparr>)))"
proof -
  let ?W = "(append_meeple (Meeple 100 100 800 600 0) empty_world)
              \<lparr>is_raining := True, rain_end_time := 110\<rparr>"
  let ?rnd = "\<lambda>_::nat. \<lparr>wander_draw = 0, spot_angle = 0, spot_radius = 0\<rparr>"
  have m: "meeples ?W = [0]" by (simp add: append_meeple_def empty_world_def)
  have r: "is_raining ?W" "rain_end_time ?W = 110" by simp_all
  from rain_slowdown [where w = ?W and now = 105 and dt = "1/60" and rnd = ?rnd]
       rain_slowdown [where w = ?W and now = 111 and dt = "1/60" and rnd = ?rnd]
  show ?thesis
    unfolding Let_def update_phase_fields r m by simp
qed

subsection \<open>The Meeple-Meeple pass\<close>

lemma push_apart_algebra:
  fixes u v R :: real
  assumes pos: "0 < u\<^sup>2 + v\<^sup>2"
  defines "d \<equiv> sqrt (u\<^sup>2 + v\<^sup>2)"
  shows "(u + 2 * (u / d * ((R - d) / 2)))\<^sup>2 + (v + 2 * (v / d * ((R - d) / 2)))\<^sup>2 = R\<^sup>2"
proof -
  have d0: "0 < d" using pos by (simp add: d_def)
  have d2: "d\<^sup>2 = u\<^sup>2 + v\<^sup>2" using pos by (simp add: d_def)
  have eu: "u + 2 * (u / d * ((R - d) / 2)) = u * R / d" using d0 by (simp add: field_simps)
  have ev: "v + 2 * (v / d * ((R - d) / 2)) = v * R / d" using d0 by (simp add: field_simps)
  have "(u * R / d)\<^sup>2 + (v * R / d)\<^sup>2 = (u\<^sup>2 + v\<^sup>2) * R\<^sup>2 / d\<^sup>2"
    by (simp add: power_divide power_mult_distrib add_divide_distrib distrib_right)
  also have "\<dots> = R\<^sup>2" using d0 by (simp add: d2 [symmetric])
  finally show ?thesis by (simp only: eu ev)
qed

lemma push_pair_skip:
  "\<not> ((m_x (h a) - m_x (h b))\<^sup>2 + (m_y (h a) - m_y (h b))\<^sup>2
        < (real_of_int (collision_radius (h a) + collision_radius (h b)))\<^sup>2 \<and>
      (m_x (h a) - m_x (h b))\<^sup>2 + (m_y (h a) - m_y (h b))\<^sup>2 > 0.001)
   \<Longrightarrow> push_pair a b h = h"
  by (auto simp add: push_pair_def Let_def)

lemma push_pair_moves:
  assumes ne: "a \<noteq> b"
    and ov: "(m_x (h a) - m_x (h b))\<^sup>2 + (m_y (h a) - m_y (h b))\<^sup>2
               < (real_of_int (collision_radius (h a) + collision_radius (h b)))\<^sup>2"
    and nz: "(m_x (h a) - m_x (h b))\<^sup>2 + (m_y (h a) - m_y (h b))\<^sup>2 > 0.001"
  defines "d \<equiv> sqrt ((m_x (h a) - m_x (h b))\<^sup>2 + (m_y (h a) - m_y (h b))\<^sup>2)"
  defines "depth \<equiv> real_of_int (collision_radius (h a) + collision_radius (h b)) - d"
  shows "m_x (push_pair a b h a) = m_x (h a) + (m_x (h a) - m_x (h b)) / d * (depth / 2)"
    and "m_y (push_pair a b h a) = m_y (h a) + (m_y (h a) - m_y (h b)) / d * (depth / 2)"
    and "m_x (push_pair a b h b) = m_x (h b) - (m_x (h a) - m_x (h b)) / d * (depth / 2)"
    and "m_y (push_pair a b h b) = m_y (h b) - (m_y (h a) - m_y (h b)) / d * (depth / 2)"
  using ne ov nz
  by (auto simp add: push_pair_def Let_def d_def depth_def COLLISION_PUSH_FORCE_def push_scale_def)

lemma push_pair_distance:
  assumes ne: "a \<noteq> b"
    and ov: "(m_x (h a) - m_x (h b))\<^sup>2 + (m_y (h a) - m_y (h b))\<^sup>2
               < (real_of_int (collision_radius (h a) + collision_radius (h b)))\<^sup>2"
    and nz: "(m_x (h a) - m_x (h b))\<^sup>2 + (m_y (h a) - m_y (h b))\<^sup>2 > 0.001"
  shows "(m_x (push_pair a b h a) - m_x (push_pair a b h b))\<^sup>2
         + (m_y (push_pair a b h a) - m_y (push_pair a b h b))\<^sup>2
         = (real_of_int (collision_radius (h a) + collision_radius (h b)))\<^sup>2"
proof -
  let ?u = "m_x (h a) - m_x (h b)" and ?v = "m_y (h a) - m_y (h b)"
  let ?R = "real_of_int (collision_radius (h a) + collision_radius (h b))"
  let ?d = "sqrt (?u\<^sup>2 + ?v\<^sup>2)"
  have pos: "0 < ?u\<^sup>2 + ?v\<^sup>2" using nz by simp
  have x: "m_x (push_pair a b h a) - m_x (push_pair a b h b) = ?u + 2 * (?u / ?d * ((?R - ?d) / 2))"
    by (simp add: push_pair_moves [OF ne ov nz])
  have y: "m_y (push_pair a b h a) - m_y (push_pair a b h b) = ?v + 2 * (?v / ?d * ((?R - ?d) / 2))"
    by (simp add: push_pair_moves [OF ne ov nz])
  show ?thesis unfolding x y using pos by (rule push_apart_algebra)
qed


lemma collision_passes_two_no_obstacles:
  "meeples w = [a, b] \<Longrightarrow> placeables w = [] \<Longrightarrow>
   collision_passes dt w = (push_pair a b (mheap w), [])"
  by (simp add: collision_passes_def)

text \<open>
  Claim C6. Two meeples of collision radius 8 that are 10 apart, in a world with no
  other meeple and no placeable: after \<^verbatim>\<open>handle_collisions\<close> their distance is 16
  (in exact arithmetic). In general the pass moves the two meeples of an overlapping
  pair by the same amount in opposite directions along the line through their centres,
  each by half the overlap depth, which brings them to the distance of the sum of
  their radii; a pair whose squared distance is at most 0.001 is left as it is.
\<close>

theorem two_agents_pushed_apart:
  assumes ms: "meeples w = [a, b]" and ne: "a \<noteq> b" and ps: "placeables w = []"
    and ra: "collision_radius (mheap w a) = 8" and rb: "collision_radius (mheap w b) = 8"
    and d10: "sqrt (distance_sq (mheap w) a b) = 10"
  shows "meeples (handle_collisions dt w) = [a, b] \<and>
         sqrt (distance_sq (mheap (handle_collisions dt w)) a b) = 16 \<and>
         (\<forall>h p q. p \<noteq> q \<and> 0 \<le> collision_radius (h p) + collision_radius (h q) \<and>
                  0.001 < distance_sq h p q \<and>
                  distance_sq h p q
                    < (real_of_int (collision_radius (h p) + collision_radius (h q)))\<^sup>2 \<longrightarrow>
            (let d = sqrt (distance_sq h p q);
                 depth = real_of_int (collision_radius (h p) + collision_radius (h q)) - d;
                 ux = (m_x (h p) - m_x (h q)) / d; uy = (m_y (h p) - m_y (h q)) / d
             in m_x (push_pair p q h p) = m_x (h p) + ux * (depth / 2) \<and>
                m_y (push_pair p q h p) = m_y (h p) + uy * (depth / 2) \<and>
                m_x (push_pair p q h q) = m_x (h q) - ux * (depth / 2) \<and>
                m_y (push_pair p q h q) = m_y (h q) - uy * (depth / 2) \<and>
                sqrt (distance_sq (push_pair p q h) p q) = d + depth)) \<and>
         (\<forall>h p q. distance_sq h p q \<le> 0.001 \<longrightarrow> push_pair p q h = h)"
proof (intro conjI allI impI)
  let ?h = "mheap w"
  have dsq: "distance_sq ?h a b = 100"
  proof -
    have "0 \<le> distance_sq ?h a b" by (simp add: distance_sq_def)
    then have "distance_sq ?h a b = (sqrt (distance_sq ?h a b))\<^sup>2" by simp
    then show ?thesis by (simp add: d10)
  qed
  have ov: "(m_x (?h a) - m_x (?h b))\<^sup>2 + (m_y (?h a) - m_y (?h b))\<^sup>2
               < (real_of_int (collision_radius (?h a) + collision_radius (?h b)))\<^sup>2"
    using dsq by (simp add: distance_sq_def ra rb)
  have nz: "(m_x (?h a) - m_x (?h b))\<^sup>2 + (m_y (?h a) - m_y (?h b))\<^sup>2 > 0.001"
    using dsq by (simp add: distance_sq_def)
  have cp: "collision_passes dt w = (push_pair a b ?h, [])"
    using ms ps by (rule collision_passes_two_no_obstacles)
  show "meeples (handle_collisions dt w) = [a, b]"
    by (simp add: handle_collisions_def Let_def cp ms)
  have "distance_sq (push_pair a b ?h) a b = (16::real)\<^sup>2"
    unfolding distance_sq_def push_pair_distance [OF ne ov nz] by (simp add: ra rb)
  then have "sqrt (distance_sq (push_pair a b ?h) a b) = 16"
    by (intro real_sqrt_unique) simp_all
  then show "sqrt (distance_sq (mheap (handle_collisions dt w)) a b) = 16"
    by (simp add: cp)
next
  fix h p q
  assume "distance_sq h p q \<le> 0.001"
  then show "push_pair p q h = h"
    by (intro push_pair_skip) (simp add: distance_sq_def)
next
  fix h p q
  assume a: "p \<noteq> q \<and> 0 \<le> collision_radius (h p) + collision_radius (h q) \<and>
                  0.001 < distance_sq h p q \<and>
                  distance_sq h p q
                    < (real_of_int (collision_radius (h p) + collision_radius (h q)))\<^sup>2"
  let ?R = "real_of_int (collision_radius (h p) + collision_radius (h q))"
  from a have ne: "p \<noteq> q"
    and ov: "(m_x (h p) - m_x (h q))\<^sup>2 + (m_y (h p) - m_y (h q))\<^sup>2 < ?R\<^sup>2"
    and nz: "(m_x (h p) - m_x (h q))\<^sup>2 + (m_y (h p) - m_y (h q))\<^sup>2 > 0.001"
    by (simp_all add: distance_sq_def)
  from a have R0: "0 \<le> ?R" by simp
  have "distance_sq (push_pair p q h) p q = ?R\<^sup>2"
    unfolding distance_sq_def by (rule push_pair_distance [OF ne ov nz])
  then have "sqrt (distance_sq (push_pair p q h) p q) = ?R" using R0 by simp
  then show "let d = sqrt (distance_sq h p q);
                 depth = real_of_int (collision_radius (h p) + collision_radius (h q)) - d;
                 ux = (m_x (h p) - m_x (h q)) / d; uy = (m_y (h p) - m_y (h q)) / d
             in m_x (push_pair p q h p) = m_x (h p) + ux * (depth / 2) \<and>
                m_y (push_pair p q h p) = m_y (h p) + uy * (depth / 2) \<and>
                m_x (push_pair p q h q) = m_x (h q) - ux * (depth / 2) \<and>
                m_y (push_pair p q h q) = m_y (h q) - uy * (depth / 2) \<and>
                sqrt (distance_sq (push_pair p q h) p q) = d + depth"
    unfolding Let_def using push_pair_moves [OF ne ov nz]
    by (simp add: distance_sq_def)
qed


theorem two_agents_pushed_apart_witness:
  "meeples (handle_collisions (1/60)
      (append_meeple (Meeple 110 100 800 600 0)
         (append_meeple (Meeple 100 100 800 600 0) empty_world))) = [0, 1] \<and>
   sqrt (distance_sq (mheap (handle_collisions (1/60)
      (append_meeple (Meeple 110 100 800 600 0)
         (append_meeple (Meeple 100 100 800 600 0) empty_world)))) 0 1) = 16"
proof -
  let ?W = "append_meeple (Meeple 110 100 800 600 0)
              (append_meeple (Meeple 100 100 800 600 0) empty_world)"
  have ms: "meeples ?W = [0, 1]" by (simp add: append_meeple_def empty_world_def)
  have ne: "(0::nat) \<noteq> 1" by simp
  have ps: "placeables ?W = []" by (simp add: append_meeple_def empty_world_def)
  have ra: "collision_radius (mheap ?W 0) = 8" and rb: "collision_radius (mheap ?W 1) = 8"
    by (simp_all add: append_meeple_def empty_world_def Meeple_def BODY_RADIUS_def)
  have "distance_sq (mheap ?W) 0 1 = 10\<^sup>2"
    by (simp add: distance_sq_def append_meeple_def empty_world_def Meeple_def)
  then have d10: "sqrt (distance_sq (mheap ?W) 0 1) = 10"
    by (simp only: real_sqrt_abs abs_numeral)
  from two_agents_pushed_apart [OF ms ne ps ra rb d10, of "1/60"]
  show ?thesis by simp
qed

subsection \<open>The transition at nightfall\<close>

lemma update_meeples_other:
  "m \<notin> set ms \<Longrightarrow> update_meeples ps ssm dt daytime es cur rnd k ms h m = h m"
  by (induction ms arbitrary: h k) simp_all

lemma update_meeples_at:
  "distinct ms \<Longrightarrow> m \<in> set ms \<Longrightarrow>
   \<exists>j. update_meeples ps ssm dt daytime es cur rnd k ms h m
         = update ps ssm dt daytime (rnd j)
             (fold apply_effect es ((h m)\<lparr>speed_multiplier_effect := cur\<rparr>))"
proof (induction ms arbitrary: h k)
  case Nil
  then show ?case by simp
next
  case (Cons a ms)
  show ?case
  proof (cases "m = a")
    case True
    with Cons.prems have "m \<notin> set ms" by simp
    then show ?thesis using True by (auto simp add: update_meeples_other)
  next
    case False
    with Cons.prems have dm: "distinct ms" "m \<in> set ms" by simp_all
    let ?h1 = "h(a := update ps ssm dt daytime (rnd k)
                    (fold apply_effect es ((h a)\<lparr>speed_multiplier_effect := cur\<rparr>)))"
    from Cons.IH [OF dm, of "Suc k" ?h1] obtain j where
      "update_meeples ps ssm dt daytime es cur rnd (Suc k) ms ?h1 m
         = update ps ssm dt daytime (rnd j)
             (fold apply_effect es ((?h1 m)\<lparr>speed_multiplier_effect := cur\<rparr>))" ..
    with False show ?thesis by auto
  qed
qed

lemma update_state_wandering:
  assumes "home me = Some i" and "state me = Wandering"
  shows "state (update_state ps daytime d me)
           = (if daytime then Wandering else if near_home (ps ! i) me then AtHome else GoingHome)"
    and "target_pos (update_state ps daytime d me)
           = (if daytime then target_pos me
              else if near_home (ps ! i) me then None else Some (center (rect (ps ! i))))"
  using assms by (simp_all add: update_state_def Let_def near_home_def)

lemma update_wandering:
  assumes "home me = Some i" and "state me = Wandering"
  shows "state (update ps ssm dt daytime d me)
           = (if daytime then Wandering else if near_home (ps ! i) me then AtHome else GoingHome)"
    and "target_pos (update ps ssm dt daytime d me)
           = (if daytime then target_pos me
              else if near_home (ps ! i) me then None else Some (center (rect (ps ! i))))"
  using assms
  by (simp_all add: update_def update_boundary_keeps update_movement_keeps update_state_wandering)

lemma near_home_cong:
  "m_x me' = m_x me \<Longrightarrow> m_y me' = m_y me \<Longrightarrow> near_home hut me' = near_home hut me"
  by (simp add: near_home_def)

lemma update_phase_wandering:
  assumes d: "distinct (meeples w)" and m: "m \<in> set (meeples w)"
    and h: "home (mheap w m) = Some i" and s: "state (mheap w m) = Wandering"
  shows "state (mheap (update_phase now dt rnd w) m)
           = (if is_daytime w then Wandering
              else if near_home (placeables w ! i) (mheap w m) then AtHome else GoingHome)"
    and "\<not> is_daytime w \<Longrightarrow> target_pos (mheap (update_phase now dt rnd w) m)
           = (if near_home (placeables w ! i) (mheap w m) then None
              else Some (center (rect (placeables w ! i))))"
proof -
  let ?cur = "if (if is_raining w \<and> now > rain_end_time w then False else is_raining w)
              then RAIN_SPEED_MULTIPLIER else 1.0"
  let ?es = "filter (\<lambda>e. is_active e now) (active_effects w)"
  let ?me = "fold apply_effect ?es ((mheap w m)\<lparr>speed_multiplier_effect := ?cur\<rparr>)"
  obtain j where j: "mheap (update_phase now dt rnd w) m
      = update (placeables w) (simulation_speed_multiplier w) dt (is_daytime w) (rnd j) ?me"
  proof -
    from update_meeples_at [OF d m, of "placeables w" "simulation_speed_multiplier w" dt
        "is_daytime w" ?es ?cur rnd 0 "mheap w"]
    obtain j where "update_meeples (placeables w) (simulation_speed_multiplier w) dt
        (is_daytime w) ?es ?cur rnd 0 (meeples w) (mheap w) m
      = update (placeables w) (simulation_speed_multiplier w) dt (is_daytime w) (rnd j) ?me" ..
    then have "mheap (update_phase now dt rnd w) m
      = update (placeables w) (simulation_speed_multiplier w) dt (is_daytime w) (rnd j) ?me"
      by (simp add: update_phase_def Let_def)
    then show ?thesis by (rule that)
  qed
  have hm: "home ?me = Some i" and sm: "state ?me = Wandering"
    by (simp_all add: fold_apply_effect_keeps h s)
  have nh: "near_home (placeables w ! i) ?me = near_home (placeables w ! i) (mheap w m)"
    by (rule near_home_cong) (simp_all add: fold_apply_effect_keeps)
  show "state (mheap (update_phase now dt rnd w) m)
           = (if is_daytime w then Wandering
              else if near_home (placeables w ! i) (mheap w m) then AtHome else GoingHome)"
    unfolding j update_wandering [OF hm sm] nh ..
  show "\<not> is_daytime w \<Longrightarrow> target_pos (mheap (update_phase now dt rnd w) m)
           = (if near_home (placeables w ! i) (mheap w m) then None
              else Some (center (rect (placeables w ! i))))"
    unfolding j update_wandering [OF hm sm] nh by simp
qed


lemma assign_home_is_daytime [simp]: "is_daytime (snd (assign_home m i w)) = is_daytime w"
  by (simp add: assign_home_def)

lemma assign_residents_is_daytime [simp]: "is_daytime (assign_residents i ms c w) = is_daytime w"
  by (induction i ms c w rule: assign_residents.induct) simp_all

lemma handle_event_is_daytime [simp]:
  "is_daytime (handle_event now heading sh ev w) = is_daytime w"
  by (cases ev)
     (simp_all add: handle_event_def simulation_click_def place_def append_meeple_def Let_def
        split: option.splits)

lemma handle_events_is_daytime [simp]: "is_daytime (handle_events evs w) = is_daytime w"
  unfolding handle_events_def by (induction evs arbitrary: w) simp_all

lemma frame_state:
  "state (mheap (frame tick evs now rnd w0) m)
     = state (mheap (update_phase now (frame_dt tick) rnd
                       (handle_events evs (update_cycle (frame_dt tick) w0))) m)"
  "target_pos (mheap (frame tick evs now rnd w0) m)
     = target_pos (mheap (update_phase now (frame_dt tick) rnd
                       (handle_events evs (update_cycle (frame_dt tick) w0))) m)"
  by (simp_all add: frame_def Let_def collision_passes_keeps)

text \<open>
  Claim C5, as the program has it. Let \<open>w1\<close> be the state of a frame after the cycle
  and the events, and \<open>m\<close> a meeple that has a home and is wandering there. If the
  frame's \<open>is_daytime\<close> is false (as it is on the frame in which the clock flips to
  night), the update of that frame sets its state to GoingHome with \<open>target_pos\<close> the
  centre of its Hut's base rectangle, unless the meeple is within
  \<open>HOME_PROXIMITY_THRESHOLD\<close> of that centre: then the same update takes it on to
  AtHome and clears \<open>target_pos\<close>. If \<open>is_daytime\<close> is true it stays Wandering.
  The collision handling of the frame leaves the state as the update has set it.
\<close>

theorem night_transition:
  assumes w1: "w1 = handle_events evs (update_cycle (frame_dt tick) w0)"
    and d: "distinct (meeples w1)" and m: "m \<in> set (meeples w1)"
    and h: "home (mheap w1 m) = Some i" and s: "state (mheap w1 m) = Wandering"
  shows "(is_daytime (update_cycle (frame_dt tick) w0) \<longrightarrow>
            state (mheap (frame tick evs now rnd w0) m) = Wandering) \<and>
         (\<not> is_daytime (update_cycle (frame_dt tick) w0) \<and>
          \<not> near_home (placeables w1 ! i) (mheap w1 m) \<longrightarrow>
            state (mheap (frame tick evs now rnd w0) m) = GoingHome \<and>
            target_pos (mheap (frame tick evs now rnd w0) m)
              = Some (center (rect (placeables w1 ! i)))) \<and>
         (\<not> is_daytime (update_cycle (frame_dt tick) w0) \<and>
          near_home (placeables w1 ! i) (mheap w1 m) \<longrightarrow>
            state (mheap (frame tick evs now rnd w0) m) = AtHome \<and>
            target_pos (mheap (frame tick evs now rnd w0) m) = None)"
proof -
  have dn: "is_daytime w1 = is_daytime (update_cycle (frame_dt tick) w0)"
    by (simp add: w1)
  show ?thesis
    unfolding frame_state w1 [symmetric] dn [symmetric]
    using update_phase_wandering [OF d m h s, of now "frame_dt tick" rnd]
    by simp
qed

lemma dusk_world_flips:
  "is_daytime (dusk_world x0 y0)"
  "\<not> is_daytime (update_cycle (frame_dt 0.05) (dusk_world x0 y0))"
  by (simp_all add: dusk_world_def update_cycle_def frame_dt_def py_fmod_def Let_def
      FULL_CYCLE_SECONDS_def DAY_DURATION_SECONDS_def NIGHT_DURATION_SECONDS_def)

lemma dusk_world_fields:
  "meeples (update_cycle dt (dusk_world x0 y0)) = [0]"
  "home (mheap (update_cycle dt (dusk_world x0 y0)) 0) = Some 0"
  "state (mheap (update_cycle dt (dusk_world x0 y0)) 0) = Wandering"
  "m_x (mheap (update_cycle dt (dusk_world x0 y0)) 0) = x0"
  "m_y (mheap (update_cycle dt (dusk_world x0 y0)) 0) = y0"
  "placeables (update_cycle dt (dusk_world x0 y0)) ! 0 = (new_Hut 100 100)\<lparr>residents := [0]\<rparr>"
  by (simp_all add: dusk_world_def update_cycle_def Let_def Meeple_def)

lemma hut_100_center:
  "centerx (rect (new_Hut 100 100)) = 100"
  "centery (rect (new_Hut 100 100)) = 100"
  by (simp_all add: new_Hut_def Let_def HUT_BASE_SIZE_def mk_Rect_def centerx_def centery_def)

text \<open>
  The claim as stated fails for a meeple that is near its home at nightfall: on the frame
  of the flip its update ends in AtHome with no target, not in GoingHome.
\<close>

theorem night_transition_counterexample:
  "is_daytime (dusk_world 105 100) \<and>
   \<not> is_daytime (update_cycle (frame_dt 0.05) (dusk_world 105 100)) \<and>
   0 \<in> set (meeples (dusk_world 105 100)) \<and>
   home (mheap (dusk_world 105 100) 0) = Some 0 \<and>
   state (mheap (dusk_world 105 100) 0) = Wandering \<and>
   state (mheap (update_phase 0 (frame_dt 0.05) no_draw
                   (update_cycle (frame_dt 0.05) (dusk_world 105 100))) 0) = AtHome \<and>
   state (mheap (frame 0.05 [] 0 no_draw (dusk_world 105 100)) 0) \<noteq> GoingHome \<and>
   target_pos (mheap (frame 0.05 [] 0 no_draw (dusk_world 105 100)) 0) = None"
proof -
  let ?w1 = "update_cycle (frame_dt 0.05) (dusk_world 105 100)"
  have d: "distinct (meeples ?w1)" and m: "0 \<in> set (meeples ?w1)"
    by (simp_all add: dusk_world_fields)
  have h: "home (mheap ?w1 0) = Some 0" and s: "state (mheap ?w1 0) = Wandering"
    by (simp_all add: dusk_world_fields)
  have n: "near_home (placeables ?w1 ! 0) (mheap ?w1 0)"
    by (simp add: near_home_def dusk_world_fields hut_100_center HOME_PROXIMITY_THRESHOLD_def)
  have st: "state (mheap (update_phase 0 (frame_dt 0.05) no_draw ?w1) 0) = AtHome"
    and tp: "target_pos (mheap (update_phase 0 (frame_dt 0.05) no_draw ?w1) 0) = None"
    using update_phase_wandering [OF d m h s, of 0 "frame_dt 0.05" no_draw] n dusk_world_flips(2) [of 105 100]
    by simp_all
  have w: "0 \<in> set (meeples (dusk_world 105 100))" "home (mheap (dusk_world 105 100) 0) = Some 0"
     "state (mheap (dusk_world 105 100) 0) = Wandering"
    by (simp_all add: dusk_world_def Meeple_def)
  show ?thesis
    using dusk_world_flips [of 105 100] w st tp
    by (simp add: frame_state handle_events_def)
qed

theorem night_transition_witness:
  "state (mheap (frame 0.05 [] 0 no_draw (dusk_world 300 300)) 0) = GoingHome \<and>
   target_pos (mheap (frame 0.05 [] 0 no_draw (dusk_world 300 300)) 0) = Some (100, 100)"
proof -
  let ?w1 = "update_cycle (frame_dt 0.05) (dusk_world 300 300)"
  have w1: "?w1 = handle_events [] ?w1" by (simp add: handle_events_def)
  have d: "distinct (meeples ?w1)" and m: "0 \<in> set (meeples ?w1)"
    by (simp_all add: dusk_world_fields)
  have h: "home (mheap ?w1 0) = Some 0" and s: "state (mheap ?w1 0) = Wandering"
    by (simp_all add: dusk_world_fields)
  have n: "\<not> near_home (placeables ?w1 ! 0) (mheap ?w1 0)"
    by (simp add: near_home_def dusk_world_fields hut_100_center HOME_PROXIMITY_THRESHOLD_def)
  have c: "center (rect (placeables ?w1 ! 0)) = (100, 100)"
    by (simp add: center_def dusk_world_fields hut_100_center)
  from night_transition [OF w1 d m h s, of 0 no_draw] n c dusk_world_flips(2) [of 300 300]
  show ?thesis by simp
qed

subsection \<open>The capacity bound\<close>

lemma cap_bound_same: "cap_bound w \<Longrightarrow> placeables w' = placeables w \<Longrightarrow> cap_bound w'"
  unfolding cap_bound_def by metis

lemma cap_boundI:
  "(\<And>p. p \<in> set (placeables w) \<Longrightarrow> kind p = Hut \<Longrightarrow>
        length (residents p) \<le> max_residents p \<and> max_residents p = HUT_MAX_RESIDENTS)
   \<Longrightarrow> cap_bound w"
  unfolding cap_bound_def by blast

lemma cap_boundD:
  "cap_bound w \<Longrightarrow> p \<in> set (placeables w) \<Longrightarrow> kind p = Hut \<Longrightarrow>
     length (residents p) \<le> max_residents p \<and> max_residents p = HUT_MAX_RESIDENTS"
  unfolding cap_bound_def by blast

lemma cap_bound_initial: "cap_bound (initial_world ds)"
  by (simp add: cap_bound_def)

lemma cap_bound_assign_home: "cap_bound w \<Longrightarrow> cap_bound (snd (assign_home m i w))"
proof (cases "has_room i w")
  case False
  assume "cap_bound w"
  with False show ?thesis by (simp add: assign_home_full)
next
  case True
  assume c: "cap_bound w"
  let ?p = "placeables w ! i"
  from True have i: "i < length (placeables w)" and k: "kind ?p = Hut"
    and l: "length (residents ?p) < max_residents ?p"
    by (simp_all add: has_room_def)
  from i have pin: "?p \<in> set (placeables w)" by simp
  with c k have mx: "max_residents ?p = HUT_MAX_RESIDENTS" using cap_boundD by blast
  show ?thesis
  proof (rule cap_boundI)
    fix p assume "p \<in> set (placeables (snd (assign_home m i w)))" and "kind p = Hut"
    then have p: "p \<in> set ((placeables w)[i := ?p\<lparr>residents := residents ?p @ [m]\<rparr>])"
      by (simp add: assign_home_placeables [OF True])
    from p have "p = ?p\<lparr>residents := residents ?p @ [m]\<rparr> \<or> p \<in> set (placeables w)"
      using set_update_subset_insert [of "placeables w" i] by auto
    then show "length (residents p) \<le> max_residents p \<and> max_residents p = HUT_MAX_RESIDENTS"
    proof
      assume "p = ?p\<lparr>residents := residents ?p @ [m]\<rparr>"
      then show ?thesis using l mx by simp
    next
      assume "p \<in> set (placeables w)"
      with c show ?thesis using \<open>kind p = Hut\<close> by (rule cap_boundD)
    qed
  qed
qed

lemma cap_bound_assign_residents: "cap_bound w \<Longrightarrow> cap_bound (assign_residents i ms c w)"
proof (induction ms arbitrary: w c)
  case Nil
  then show ?case by simp
next
  case (Cons m ms)
  from Cons.prems have "cap_bound (snd (assign_home m i w))" by (rule cap_bound_assign_home)
  with Cons show ?case by (simp add: assign_residents_Cons)
qed

lemma new_placeable_cap:
  "new_placeable t x y = Some new_obj \<Longrightarrow>
   residents new_obj = [] \<and> (kind new_obj = Hut \<longrightarrow> max_residents new_obj = HUT_MAX_RESIDENTS)"
  by (cases t) (auto simp: new_placeable_def new_Hole_def new_Hut_def new_Farm_def
      new_Factory_def new_Tree_def Let_def)

lemma cap_bound_append:
  assumes n: "new_placeable t x y = Some new_obj" and c: "cap_bound w"
  shows "cap_bound (w\<lparr>placeables := placeables w @ [new_obj]\<rparr>)"
proof (rule cap_boundI)
  fix p assume "p \<in> set (placeables (w\<lparr>placeables := placeables w @ [new_obj]\<rparr>))"
    and k: "kind p = Hut"
  then have "p \<in> set (placeables w) \<or> p = new_obj" by auto
  then show "length (residents p) \<le> max_residents p \<and> max_residents p = HUT_MAX_RESIDENTS"
  proof
    assume "p \<in> set (placeables w)"
    with c show ?thesis using k by (rule cap_boundD)
  next
    assume "p = new_obj"
    with new_placeable_cap [OF n] k show ?thesis by simp
  qed
qed

lemma cap_bound_place:
  assumes n: "new_placeable t x y = Some new_obj" and c: "cap_bound w"
  shows "cap_bound (place sh new_obj w)"
proof -
  have a: "cap_bound (w\<lparr>placeables := placeables w @ [new_obj]\<rparr>)"
    using n c by (rule cap_bound_append)
  then have "cap_bound (assign_residents (length (placeables w))
      (sh (unassigned (w\<lparr>placeables := placeables w @ [new_obj]\<rparr>))) 0
      (w\<lparr>placeables := placeables w @ [new_obj]\<rparr>))"
    by (rule cap_bound_assign_residents)
  with a c show ?thesis unfolding place_def Let_def by (simp only: if_split) simp
qed

lemma cap_bound_handle_event:
  "cap_bound w \<Longrightarrow> cap_bound (handle_event now heading sh ev w)"
proof (cases ev)
  case (MOUSEBUTTONDOWN x y)
  assume c: "cap_bound w"
  show ?thesis
  proof (cases "x \<ge> SIMULATION_WIDTH \<or> selected_tool w = None")
    case True
    then have "placeables (handle_event now heading sh ev w) = placeables w"
      by (auto simp add: handle_event_def MOUSEBUTTONDOWN)
    with c show ?thesis by (rule cap_bound_same)
  next
    case False
    then obtain t where t: "selected_tool w = Some t" and x: "x < SIMULATION_WIDTH" by auto
    then have e: "handle_event now heading sh ev w = simulation_click now heading sh t x y w"
      by (simp add: handle_event_def MOUSEBUTTONDOWN)
    show ?thesis
    proof (cases "new_placeable t x y")
      case (Some new_obj)
      then show ?thesis using c by (simp add: e simulation_click_def cap_bound_place)
    next
      case None
      then have "placeables (simulation_click now heading sh t x y w) = placeables w"
        by (simp add: simulation_click_def append_meeple_def)
      with c show ?thesis unfolding e by (rule cap_bound_same)
    qed
  qed
qed (erule cap_bound_same, simp add: handle_event_def)+

lemma remove_from_homes_shrinks:
  "\<forall>p' \<in> set (remove_from_homes h rm ps).
     \<exists>p \<in> set ps. kind p' = kind p \<and> max_residents p' = max_residents p \<and>
                  length (residents p') \<le> length (residents p)"
proof (induction rm arbitrary: ps)
  case Nil
  show ?case by auto
next
  case (Cons m rm)
  show ?case
  proof (cases "home (h m)")
    case None
    then show ?thesis using Cons.IH [of ps] by simp
  next
    case (Some i)
    show ?thesis
    proof (cases "i < length ps \<and> m \<in> set (residents (ps ! i))")
      case False
      have "remove_from_homes h (m # rm) ps = remove_from_homes h rm ps"
      proof (cases "m \<in> set (residents (ps ! i))")
        case True
        with False have "\<not> i < length ps" by simp
        then show ?thesis using Some by (simp add: list_update_beyond)
      next
        case False
        then show ?thesis using Some by simp
      qed
      then show ?thesis using Cons.IH [of ps] by simp
    next
      case True
      let ?q = "(ps ! i)\<lparr>residents := remove1 m (residents (ps ! i))\<rparr>"
      let ?ps1 = "ps[i := ?q]"
      have e: "remove_from_homes h (m # rm) ps = remove_from_homes h rm ?ps1"
        using Some True by simp
      have step: "\<forall>p' \<in> set ?ps1. \<exists>p \<in> set ps. kind p' = kind p \<and>
          max_residents p' = max_residents p \<and> length (residents p') \<le> length (residents p)"
      proof
        fix p' assume "p' \<in> set ?ps1"
        then have "p' = ?q \<or> p' \<in> set ps"
          using set_update_subset_insert [of ps i ?q] by auto
        then show "\<exists>p \<in> set ps. kind p' = kind p \<and>
          max_residents p' = max_residents p \<and> length (residents p') \<le> length (residents p)"
        proof
          assume "p' = ?q"
          moreover have "ps ! i \<in> set ps" using True by simp
          ultimately show ?thesis by (intro bexI [of _ "ps ! i"]) (simp_all add: length_remove1)
        next
          assume "p' \<in> set ps"
          then show ?thesis by (intro bexI [of _ p']) simp_all
        qed
      qed
      show ?thesis unfolding e
      proof
        fix p' assume "p' \<in> set (remove_from_homes h rm ?ps1)"
        with Cons.IH [of ?ps1] obtain p1 where "p1 \<in> set ?ps1" "kind p' = kind p1"
          "max_residents p' = max_residents p1" "length (residents p') \<le> length (residents p1)"
          by blast
        moreover from step \<open>p1 \<in> set ?ps1\<close> obtain p where "p \<in> set ps" "kind p1 = kind p"
          "max_residents p1 = max_residents p" "length (residents p1) \<le> length (residents p)"
          by blast
        ultimately show "\<exists>p \<in> set ps. kind p' = kind p \<and>
          max_residents p' = max_residents p \<and> length (residents p') \<le> length (residents p)"
          by (intro bexI [of _ p]) simp_all
      qed
    qed
  qed
qed

lemma cap_bound_handle_collisions: "cap_bound w \<Longrightarrow> cap_bound (handle_collisions dt w)"
proof -
  assume c: "cap_bound w"
  show ?thesis
  proof (cases "snd (collision_passes dt w) = []")
    case True
    then have "placeables (handle_collisions dt w) = placeables w"
      by (simp add: handle_collisions_def Let_def)
    with c show ?thesis by (rule cap_bound_same)
  next
    case False
    then have p: "placeables (handle_collisions dt w)
        = remove_from_homes (fst (collision_passes dt w)) (snd (collision_passes dt w)) (placeables w)"
      by (simp add: handle_collisions_def Let_def)
    show ?thesis
    proof (rule cap_boundI)
      fix p' assume "p' \<in> set (placeables (handle_collisions dt w))" and k: "kind p' = Hut"
      then have "p' \<in> set (remove_from_homes (fst (collision_passes dt w))
                        (snd (collision_passes dt w)) (placeables w))" by (simp only: p)
      with remove_from_homes_shrinks obtain p where "p \<in> set (placeables w)" "kind p' = kind p"
          "max_residents p' = max_residents p" "length (residents p') \<le> length (residents p)"
        by blast
      with cap_boundD [OF c, of p] k
      show "length (residents p') \<le> max_residents p' \<and> max_residents p' = HUT_MAX_RESIDENTS"
        by simp
    qed
  qed
qed

text \<open>
  Claim C1. In every state between operations (the phases of the loop, the append of
  a placed object, every call of \<^verbatim>\<open>assign_home\<close>, the removals of the collision
  handling) every Hut has at most \<open>max_residents\<close> residents, and \<open>max_residents\<close> is
  \<open>HUT_MAX_RESIDENTS = 4\<close>. \<^verbatim>\<open>assign_home\<close> on a full Hut returns False and leaves
  the world as it is.
\<close>

theorem capacity_bound:
  "op_reachable w \<Longrightarrow>
     cap_bound w \<and> HUT_MAX_RESIDENTS = 4 \<and>
     (\<forall>m i. i < length (placeables w) \<and> kind (placeables w ! i) = Hut \<and>
            max_residents (placeables w ! i) \<le> length (residents (placeables w ! i)) \<longrightarrow>
            assign_home m i w = (False, w))"
proof -
  assume r: "op_reachable w"
  then have "cap_bound w"
  proof (induction rule: op_reachable.induct)
    case (o_init ds)
    show ?case by (rule cap_bound_initial)
  next
    case (o_cycle w dt)
    from o_cycle.IH show ?case by (rule cap_bound_same) (simp add: update_cycle_def Let_def)
  next
    case (o_event w now heading shuffle ev)
    then show ?case by (simp add: cap_bound_handle_event)
  next
    case (o_append w t mouse_x mouse_y new_obj)
    then show ?case by (simp add: cap_bound_append)
  next
    case (o_assign w m i)
    then show ?case by (simp add: cap_bound_assign_home)
  next
    case (o_update w now dt rnd)
    from o_update.IH show ?case by (rule cap_bound_same) simp
  next
    case (o_collisions w dt)
    then show ?case by (simp add: cap_bound_handle_collisions)
  qed
  moreover have "HUT_MAX_RESIDENTS = 4" by (simp add: HUT_MAX_RESIDENTS_def)
  moreover have "\<forall>m i. i < length (placeables w) \<and> kind (placeables w ! i) = Hut \<and>
            max_residents (placeables w ! i) \<le> length (residents (placeables w ! i)) \<longrightarrow>
            assign_home m i w = (False, w)"
    by (simp add: assign_home_def)
  ultimately show ?thesis by blast
qed

lemma reachable_op_reachable: "reachable w \<Longrightarrow> op_reachable w"
  by (induction rule: reachable.induct) (auto intro: op_reachable.intros)


lemma initial_world_selected_tool [simp]: "selected_tool (initial_world ds) = None"
  by (induction ds rule: rev_induct)
     (simp_all add: initial_world_snoc append_meeple_def, simp add: initial_world_def empty_world_def)

lemma select_hut_tool:
  "selected_tool w = None \<Longrightarrow>
   handle_event now heading sh (MOUSEBUTTONDOWN 810 70) w = w\<lparr>selected_tool := Some ToolHut\<rparr>"
  by (simp add: handle_event_def SIMULATION_WIDTH_def TOOLS_def ICON_PADDING_def ICON_SIZE_def
      collidepoint_def mk_Rect_def)

lemma place_first_hut:
  assumes "selected_tool w = Some ToolHut" and "placeables w = []"
  shows "placeables (handle_event now heading sh (MOUSEBUTTONDOWN 400 300) w)
           = [(new_Hut 400 300)\<lparr>residents := take 4 (sh (unassigned w))\<rparr>]"
proof -
  have n: "new_placeable ToolHut 400 300 = Some (new_Hut 400 300)" by (simp add: new_placeable_def)
  have x: "(400::int) < SIMULATION_WIDTH" by (simp add: SIMULATION_WIDTH_def)
  have c: "can_place (new_Hut 400 300) (placeables w)" by (simp add: assms can_place_def)
  have r: "residents (new_Hut 400 300) = []" using n by (rule new_placeable_residents)
  have k: "kind (new_Hut 400 300) = Hut" "max_residents (new_Hut 400 300) = 4"
    by (simp_all add: new_Hut_def Let_def HUT_MAX_RESIDENTS_def)
  show ?thesis
    unfolding handle_event_place [OF assms(1) x n] place_placeables [OF c r]
    by (simp add: assms k)
qed

theorem capacity_bound_witness:
  "length (residents (placeables
      (handle_event 0 0 id (MOUSEBUTTONDOWN 400 300)
        (handle_event 0 0 id (MOUSEBUTTONDOWN 810 70)
          (initial_world (replicate 20 (0, 0, 0))))) ! 0)) = 4 \<and>
   max_residents (placeables
      (handle_event 0 0 id (MOUSEBUTTONDOWN 400 300)
        (handle_event 0 0 id (MOUSEBUTTONDOWN 810 70)
          (initial_world (replicate 20 (0, 0, 0))))) ! 0) = 4 \<and>
   assign_home 7 0
      (handle_event 0 0 id (MOUSEBUTTONDOWN 400 300)
        (handle_event 0 0 id (MOUSEBUTTONDOWN 810 70)
          (initial_world (replicate 20 (0, 0, 0)))))
     = (False,
        handle_event 0 0 id (MOUSEBUTTONDOWN 400 300)
          (handle_event 0 0 id (MOUSEBUTTONDOWN 810 70)
            (initial_world (replicate 20 (0, 0, 0)))))"
proof -
  let ?W0 = "initial_world (replicate 20 (0, 0, 0))"
  let ?W1 = "handle_event 0 0 id (MOUSEBUTTONDOWN 810 70) ?W0"
  let ?W2 = "handle_event 0 0 id (MOUSEBUTTONDOWN 400 300) ?W1"
  have r0: "op_reachable ?W0" by (rule op_reachable.o_init) (simp add: INITIAL_NUM_MEEPLES_def)
  then have "op_reachable ?W1" by (rule op_reachable.o_event)
  then have r2: "op_reachable ?W2" by (rule op_reachable.o_event)
  have w1: "?W1 = ?W0\<lparr>selected_tool := Some ToolHut\<rparr>" by (simp add: select_hut_tool)
  have p: "placeables ?W2 = [(new_Hut 400 300)\<lparr>residents := take 4 (id (unassigned ?W1))\<rparr>]"
    by (rule place_first_hut) (simp_all add: w1)
  have u: "take 4 (id (unassigned ?W1)) = [0, 1, 2, 3]"
    by (simp add: w1 upt_rec)
  have p0: "placeables ?W2 ! 0 = (new_Hut 400 300)\<lparr>residents := [0, 1, 2, 3]\<rparr>"
    and l: "0 < length (placeables ?W2)"
    unfolding p u by simp_all
  have k: "kind (placeables ?W2 ! 0) = Hut" "max_residents (placeables ?W2 ! 0) = 4"
    "length (residents (placeables ?W2 ! 0)) = 4"
    unfolding p0 by (simp_all add: new_Hut_def Let_def HUT_MAX_RESIDENTS_def)
  from capacity_bound [OF r2] l k show ?thesis by simp
qed

subsection \<open>The membership invariant\<close>

lemma world_invI:
  assumes "distinct (meeples w)"
    and "\<And>m. m \<in> set (meeples w) \<Longrightarrow> m < next_mref w"
    and "\<And>i. i < length (placeables w) \<Longrightarrow> distinct (residents (placeables w ! i))"
    and "\<And>i m. i < length (placeables w) \<Longrightarrow> m \<in> set (residents (placeables w ! i))
           \<Longrightarrow> m \<in> set (meeples w) \<and> home (mheap w m) = Some i"
  shows "world_inv w"
  unfolding world_inv_def using assms by blast

lemma world_invD:
  assumes "world_inv w"
  shows "distinct (meeples w)"
    and "\<And>m. m \<in> set (meeples w) \<Longrightarrow> m < next_mref w"
    and "\<And>i. i < length (placeables w) \<Longrightarrow> distinct (residents (placeables w ! i))"
    and "\<And>i m. i < length (placeables w) \<Longrightarrow> m \<in> set (residents (placeables w ! i))
           \<Longrightarrow> m \<in> set (meeples w)"
    and "\<And>i m. i < length (placeables w) \<Longrightarrow> m \<in> set (residents (placeables w ! i))
           \<Longrightarrow> home (mheap w m) = Some i"
  using assms unfolding world_inv_def by blast+

lemma world_inv_same:
  assumes "world_inv w" and "meeples w' = meeples w" and "next_mref w' = next_mref w"
    and "placeables w' = placeables w" and "\<And>m. home (mheap w' m) = home (mheap w m)"
  shows "world_inv w'"
  using assms unfolding world_inv_def by simp

lemma world_inv_initial: "world_inv (initial_world ds)"
  by (rule world_invI) simp_all

lemma world_inv_append_meeple:
  assumes "world_inv w"
  shows "world_inv (append_meeple me w)"
proof (rule world_invI)
  show "distinct (meeples (append_meeple me w))"
    using world_invD(1,2) [OF assms] by (auto simp add: append_meeple_def)
next
  fix m assume "m \<in> set (meeples (append_meeple me w))"
  then show "m < next_mref (append_meeple me w)"
    using world_invD(2) [OF assms] by (auto simp add: append_meeple_def less_Suc_eq)
next
  fix i assume "i < length (placeables (append_meeple me w))"
  then show "distinct (residents (placeables (append_meeple me w) ! i))"
    using world_invD(3) [OF assms] by (simp add: append_meeple_def)
next
  fix i m assume "i < length (placeables (append_meeple me w))"
    and "m \<in> set (residents (placeables (append_meeple me w) ! i))"
  then have i: "i < length (placeables w)" and m: "m \<in> set (residents (placeables w ! i))"
    by (simp_all add: append_meeple_def)
  from world_invD(4) [OF assms i m] world_invD(2) [OF assms] have "m \<noteq> next_mref w" by auto
  with world_invD(4,5) [OF assms i m]
  show "m \<in> set (meeples (append_meeple me w)) \<and> home (mheap (append_meeple me w) m) = Some i"
    by (simp add: append_meeple_def)
qed

lemma world_inv_place:
  assumes inv: "world_inv w" and n: "new_placeable t x y = Some new_obj"
    and perm: "mset (sh (unassigned w)) = mset (unassigned w)"
  shows "world_inv (place sh new_obj w)"
proof (cases "can_place new_obj (placeables w)")
  case False
  with inv show ?thesis by (simp add: place_rejected)
next
  case True
  let ?w' = "place sh new_obj w"
  let ?n = "length (placeables w)"
  let ?U = "unassigned w"
  let ?S = "if kind new_obj = Hut then take (max_residents new_obj) (sh ?U) else []"
  have r: "residents new_obj = []" using n by (rule new_placeable_residents)
  have ps: "placeables ?w' = placeables w @ [new_obj\<lparr>residents := ?S\<rparr>]"
    using place_placeables [OF True r, of sh] by simp
  have hp: "\<And>m. mheap ?w' m = (if m \<in> set ?S then (mheap w m)\<lparr>home := Some ?n\<rparr> else mheap w m)"
    using place_mheap [OF True r, of sh] by simp
  have dU: "distinct ?U" using world_invD(1) [OF inv] by (simp add: unassigned_def)
  have dsh: "distinct (sh ?U)" using perm dU by (metis mset_eq_imp_distinct_iff)
  have ssh: "set (sh ?U) = set ?U" using perm by (rule mset_eq_setD)
  have dS: "distinct ?S" using dsh by simp
  have sS: "set ?S \<subseteq> set ?U" using ssh set_take_subset [of "max_residents new_obj" "sh ?U"] by auto
  have hU: "\<And>m. m \<in> set ?U \<Longrightarrow> home (mheap w m) = None \<and> m \<in> set (meeples w)"
    by (simp add: unassigned_def)
  show ?thesis
  proof (rule world_invI)
    show "distinct (meeples ?w')" using world_invD(1) [OF inv] by simp
  next
    fix m assume "m \<in> set (meeples ?w')"
    then show "m < next_mref ?w'" using world_invD(2) [OF inv] by simp
  next
    fix i assume "i < length (placeables ?w')"
    then have "i < ?n \<or> i = ?n" by (auto simp add: ps)
    then show "distinct (residents (placeables ?w' ! i))"
    proof
      assume "i < ?n"
      then show ?thesis using world_invD(3) [OF inv] by (simp add: ps nth_append)
    next
      assume "i = ?n"
      then show ?thesis using dS by (simp add: ps)
    qed
  next
    fix i m assume "i < length (placeables ?w')" and m: "m \<in> set (residents (placeables ?w' ! i))"
    then have "i < ?n \<or> i = ?n" by (auto simp add: ps)
    then show "m \<in> set (meeples ?w') \<and> home (mheap ?w' m) = Some i"
    proof
      assume i: "i < ?n"
      with m have mr: "m \<in> set (residents (placeables w ! i))" by (simp add: ps nth_append)
      from world_invD(5) [OF inv i mr] have "m \<notin> set ?U" by (auto simp add: unassigned_def)
      with sS have "m \<notin> set ?S" by blast
      with world_invD(4,5) [OF inv i mr] show ?thesis by (auto simp add: hp)
    next
      assume i: "i = ?n"
      with m have "m \<in> set ?S" by (simp add: ps)
      with sS hU [of m] i show ?thesis by (auto simp add: hp)
    qed
  qed
qed

lemma unassigned_same:
  "meeples w' = meeples w \<Longrightarrow> mheap w' = mheap w \<Longrightarrow> unassigned w' = unassigned w"
  by (simp add: unassigned_def)

lemma world_inv_handle_event:
  assumes inv: "world_inv w" and perm: "mset (sh (unassigned w)) = mset (unassigned w)"
  shows "world_inv (handle_event now heading sh ev w)"
proof (cases ev)
  case (MOUSEBUTTONDOWN x y)
  show ?thesis
  proof (cases "x \<ge> SIMULATION_WIDTH \<or> selected_tool w = None")
    case True
    show ?thesis
      by (rule world_inv_same [OF inv]) (use True in \<open>auto simp add: handle_event_def MOUSEBUTTONDOWN\<close>)
  next
    case False
    then obtain t where t: "selected_tool w = Some t" and x: "x < SIMULATION_WIDTH" by auto
    then have e: "handle_event now heading sh ev w = simulation_click now heading sh t x y w"
      by (simp add: handle_event_def MOUSEBUTTONDOWN)
    show ?thesis
    proof (cases "new_placeable t x y")
      case (Some new_obj)
      then show ?thesis using inv perm by (simp add: e simulation_click_def world_inv_place)
    next
      case None
      show ?thesis
      proof (cases "t = ToolAddMeeple \<and> \<not> blocks_point (mk_Rect (x - 1) (y - 1) 2 2) (placeables w)")
        case True
        then show ?thesis using None inv
          by (simp add: e simulation_click_def world_inv_append_meeple)
      next
        case False
        show ?thesis unfolding e
          by (rule world_inv_same [OF inv])
             (use None False in \<open>auto simp add: simulation_click_def\<close>)
      qed
    qed
  qed
qed (rule world_inv_same [OF inv], simp_all add: handle_event_def)+

lemma world_inv_update_phase: "world_inv w \<Longrightarrow> world_inv (update_phase now dt rnd w)"
  by (erule world_inv_same) (simp_all add: update_phase_def Let_def update_meeples_home)

subsection \<open>The removal batch\<close>

lemma collide_obstacle_marks:
  "set (snd s) \<subseteq> set (snd (collide_obstacle dt m r obs s))"
  "set (snd (collide_obstacle dt m r obs s)) \<subseteq> insert m (set (snd s))"
  by (auto simp add: collide_obstacle_def Let_def)

lemma obstacle_loop_marks:
  "set (snd s) \<subseteq> set (snd (obstacle_loop dt m r os s)) \<and>
   set (snd (obstacle_loop dt m r os s)) \<subseteq> insert m (set (snd s))"
proof (induction os arbitrary: s)
  case Nil
  show ?case by auto
next
  case (Cons obs os)
  show ?case
    using Cons [of "collide_obstacle dt m r obs s"] collide_obstacle_marks [where s = s and dt = dt and m = m and r = r and obs = obs]
    by auto
qed

lemma obstacle_pass_marks:
  "set (snd s) \<subseteq> set (snd (obstacle_pass dt ms os s)) \<and>
   set (snd (obstacle_pass dt ms os s)) \<subseteq> set ms \<union> set (snd s)"
proof (induction ms arbitrary: s)
  case Nil
  show ?case by simp
next
  case (Cons m ms)
  define s1 where
    "s1 = (if m \<in> set (snd s) then s else obstacle_loop dt m (meeple_col_rect (fst s m)) os s)"
  have e: "obstacle_pass dt (m # ms) os s = obstacle_pass dt ms os s1"
    by (simp add: s1_def)
  have a: "set (snd s) \<subseteq> set (snd s1) \<and> set (snd s1) \<subseteq> insert m (set (snd s))"
    unfolding s1_def using obstacle_loop_marks [where s = s and dt = dt and m = m and os = os]
    by (cases "m \<in> set (snd s)") auto
  show ?case unfolding e using Cons [of s1] a by auto
qed

lemma collision_passes_marks: "set (snd (collision_passes dt w)) \<subseteq> set (meeples w)"
  using obstacle_pass_marks [where s = "(meeple_pass (meeples w) [] (mheap w), [])" and dt = dt and ms = "meeples w" and os = "placeables w"]
  by (simp add: collision_passes_def)

lemma remove_from_homes_filter:
  assumes "\<And>i. i < length ps \<Longrightarrow> distinct (residents (ps ! i))"
    and "\<And>i m. i < length ps \<Longrightarrow> m \<in> set (residents (ps ! i)) \<Longrightarrow> home (h m) = Some i"
  shows "length (remove_from_homes h rm ps) = length ps \<and>
         (\<forall>i < length ps. residents (remove_from_homes h rm ps ! i)
                            = filter (\<lambda>m. m \<notin> set rm) (residents (ps ! i)))"
  using assms
proof (induction rm arbitrary: ps)
  case Nil
  show ?case by simp
next
  case (Cons m rm)
  have notin: "\<And>i. i < length ps \<Longrightarrow> home (h m) \<noteq> Some i \<Longrightarrow> m \<notin> set (residents (ps ! i))"
    using Cons.prems(2) by blast
  show ?case
  proof (cases "\<exists>i < length ps. m \<in> set (residents (ps ! i))")
    case False
    then have nm: "\<And>i. i < length ps \<Longrightarrow> m \<notin> set (residents (ps ! i))" by blast
    have e: "remove_from_homes h (m # rm) ps = remove_from_homes h rm ps"
    proof (cases "home (h m)")
      case None
      then show ?thesis by simp
    next
      case (Some j)
      show ?thesis
      proof (cases "j < length ps")
        case True
        with nm Some show ?thesis by simp
      next
        case False
        then show ?thesis using Some by (simp add: list_update_beyond)
      qed
    qed
    have f: "\<And>i. i < length ps \<Longrightarrow> filter (\<lambda>x. x \<notin> set (m # rm)) (residents (ps ! i))
                 = filter (\<lambda>x. x \<notin> set rm) (residents (ps ! i))"
      using nm by (intro filter_cong) auto
    from Cons.IH [of ps] Cons.prems
    have L: "length (remove_from_homes h rm ps) = length ps"
      and R: "\<And>i. i < length ps \<Longrightarrow> residents (remove_from_homes h rm ps ! i)
                            = filter (\<lambda>m. m \<notin> set rm) (residents (ps ! i))"
      by blast+
    show ?thesis unfolding e
    proof (intro conjI allI impI)
      show "length (remove_from_homes h rm ps) = length ps" by (rule L)
    next
      fix i assume i: "i < length ps"
      have "residents (remove_from_homes h rm ps ! i)
              = filter (\<lambda>x. x \<notin> set rm) (residents (ps ! i))" using i by (rule R)
      also have "\<dots> = filter (\<lambda>x. x \<notin> set (m # rm)) (residents (ps ! i))"
        using i by (rule f [symmetric])
      finally show "residents (remove_from_homes h rm ps ! i)
              = filter (\<lambda>x. x \<notin> set (m # rm)) (residents (ps ! i))" .
    qed
  next
    case True
    then obtain j where j: "j < length ps" and mj: "m \<in> set (residents (ps ! j))" by blast
    then have hj: "home (h m) = Some j" using Cons.prems(2) by blast
    let ?q = "(ps ! j)\<lparr>residents := remove1 m (residents (ps ! j))\<rparr>"
    let ?ps1 = "ps[j := ?q]"
    have e: "remove_from_homes h (m # rm) ps = remove_from_homes h rm ?ps1"
      using hj mj by simp
    have r1: "\<And>i. i < length ps \<Longrightarrow> residents (?ps1 ! i)
                 = (if i = j then remove1 m (residents (ps ! j)) else residents (ps ! i))"
      by (simp add: nth_list_update)
    have p1: "\<And>i. i < length ?ps1 \<Longrightarrow> distinct (residents (?ps1 ! i))"
      using Cons.prems(1) by (simp add: r1)
    have p2: "\<And>i x. i < length ?ps1 \<Longrightarrow> x \<in> set (residents (?ps1 ! i)) \<Longrightarrow> home (h x) = Some i"
    proof -
      fix i x assume i: "i < length ?ps1" and x: "x \<in> set (residents (?ps1 ! i))"
      then have "x \<in> set (residents (ps ! i))"
        using set_remove1_subset [of m "residents (ps ! j)"] by (auto simp add: r1 split: if_splits)
      with i show "home (h x) = Some i" using Cons.prems(2) by simp
    qed
    have IH: "length (remove_from_homes h rm ?ps1) = length ?ps1 \<and>
         (\<forall>i < length ?ps1. residents (remove_from_homes h rm ?ps1 ! i)
                            = filter (\<lambda>m. m \<notin> set rm) (residents (?ps1 ! i)))"
      using p1 p2 by (rule Cons.IH)
    have f: "\<And>i. i < length ps \<Longrightarrow> filter (\<lambda>x. x \<notin> set rm) (residents (?ps1 ! i))
                 = filter (\<lambda>x. x \<notin> set (m # rm)) (residents (ps ! i))"
    proof -
      fix i assume i: "i < length ps"
      show "filter (\<lambda>x. x \<notin> set rm) (residents (?ps1 ! i))
                 = filter (\<lambda>x. x \<notin> set (m # rm)) (residents (ps ! i))"
      proof (cases "i = j")
        case True
        have "remove1 m (residents (ps ! j)) = filter (\<lambda>x. x \<noteq> m) (residents (ps ! j))"
          using Cons.prems(1) [OF j] by (simp add: distinct_remove1_removeAll removeAll_filter_not_eq) (metis (mono_tags, lifting) filter_cong)
        then show ?thesis using True i by (simp add: r1)
      next
        case False
        with hj have "home (h m) \<noteq> Some i" by simp
        with notin [OF i] have "m \<notin> set (residents (ps ! i))" by simp
        then have "filter (\<lambda>x. x \<notin> set rm) (residents (ps ! i))
                 = filter (\<lambda>x. x \<notin> set (m # rm)) (residents (ps ! i))"
          by (intro filter_cong) auto
        then show ?thesis using False i by (simp add: r1)
      qed
    qed
    from IH have L: "length (remove_from_homes h rm ?ps1) = length ps"
      and R: "\<And>i. i < length ps \<Longrightarrow> residents (remove_from_homes h rm ?ps1 ! i)
                            = filter (\<lambda>m. m \<notin> set rm) (residents (?ps1 ! i))"
      by simp_all
    show ?thesis unfolding e
    proof (intro conjI allI impI)
      show "length (remove_from_homes h rm ?ps1) = length ps" by (rule L)
    next
      fix i assume i: "i < length ps"
      have "residents (remove_from_homes h rm ?ps1 ! i)
              = filter (\<lambda>x. x \<notin> set rm) (residents (?ps1 ! i))" using i by (rule R)
      also have "\<dots> = filter (\<lambda>x. x \<notin> set (m # rm)) (residents (ps ! i))"
        using i by (rule f)
      finally show "residents (remove_from_homes h rm ?ps1 ! i)
              = filter (\<lambda>x. x \<notin> set (m # rm)) (residents (ps ! i))" .
    qed
  qed
qed

lemma handle_collisions_placeables:
  "placeables (handle_collisions dt w)
     = remove_from_homes (fst (collision_passes dt w)) (snd (collision_passes dt w)) (placeables w)"
  by (simp add: handle_collisions_def Let_def)

lemma handle_collisions_residents:
  assumes inv: "world_inv w"
  shows "length (placeables (handle_collisions dt w)) = length (placeables w) \<and>
         (\<forall>i < length (placeables w).
            residents (placeables (handle_collisions dt w) ! i)
              = filter (\<lambda>m. m \<notin> set (snd (collision_passes dt w))) (residents (placeables w ! i)))"
  unfolding handle_collisions_placeables
proof (rule remove_from_homes_filter)
  fix i assume "i < length (placeables w)"
  then show "distinct (residents (placeables w ! i))" by (rule world_invD(3) [OF inv])
next
  fix i m assume "i < length (placeables w)" and "m \<in> set (residents (placeables w ! i))"
  then have "home (mheap w m) = Some i" by (rule world_invD(5) [OF inv])
  then show "home (fst (collision_passes dt w) m) = Some i"
    by (simp add: collision_passes_keeps)
qed

lemma world_inv_handle_collisions:
  assumes inv: "world_inv w"
  shows "world_inv (handle_collisions dt w)"
proof (rule world_invI)
  let ?rm = "snd (collision_passes dt w)"
  note R = handle_collisions_residents [OF inv, of dt]
  show "distinct (meeples (handle_collisions dt w))"
    using world_invD(1) [OF inv] by simp
  show "\<And>m. m \<in> set (meeples (handle_collisions dt w)) \<Longrightarrow> m < next_mref (handle_collisions dt w)"
    using world_invD(2) [OF inv] by simp
  show "\<And>i. i < length (placeables (handle_collisions dt w))
          \<Longrightarrow> distinct (residents (placeables (handle_collisions dt w) ! i))"
    using R world_invD(3) [OF inv] by simp
  show "\<And>i m. i < length (placeables (handle_collisions dt w))
          \<Longrightarrow> m \<in> set (residents (placeables (handle_collisions dt w) ! i))
          \<Longrightarrow> m \<in> set (meeples (handle_collisions dt w))
              \<and> home (mheap (handle_collisions dt w) m) = Some i"
    using R world_invD(4,5) [OF inv] by (simp add: collision_passes_keeps)
qed

lemma reachable_world_inv: "reachable w \<Longrightarrow> world_inv w"
proof (induction rule: reachable.induct)
  case (r_init ds)
  show ?case by (rule world_inv_initial)
next
  case (r_cycle w tick)
  from r_cycle.IH show ?case by (rule world_inv_same) (simp_all add: update_cycle_def Let_def)
next
  case (r_event w shuffle now heading ev)
  then show ?case by (simp add: world_inv_handle_event)
next
  case (r_update w now tick rnd)
  then show ?case by (simp add: world_inv_update_phase)
next
  case (r_collisions w tick)
  then show ?case by (simp add: world_inv_handle_collisions)
qed

lemma world_inv_residents_live: "world_inv w \<Longrightarrow> residents_live w"
  unfolding residents_live_def
proof (intro ballI)
  fix p m assume inv: "world_inv w" and "p \<in> set (placeables w)" and m: "m \<in> set (residents p)"
  then obtain i where "i < length (placeables w)" and "p = placeables w ! i"
    by (auto simp add: in_set_conv_nth)
  with m show "m \<in> set (meeples w)" using world_invD(4) [OF inv] by simp
qed

text \<open>
  Claim C9. In every state of the program every entry of every resident list is a
  meeple of the collection \<^verbatim>\<open>meeples\<close>. Residents are only drawn from that
  collection, and every meeple that the collision handling marks is, in the same
  call, taken out of the collection and out of every resident list.
\<close>

theorem residents_are_live:
  "reachable w \<Longrightarrow>
     residents_live w \<and>
     (\<forall>dt. \<forall>m \<in> set (snd (collision_passes dt w)).
         m \<notin> set (meeples (handle_collisions dt w)) \<and>
         (\<forall>p \<in> set (placeables (handle_collisions dt w)). m \<notin> set (residents p)))"
proof -
  assume r: "reachable w"
  then have inv: "world_inv w" by (rule reachable_world_inv)
  then have "residents_live w" by (rule world_inv_residents_live)
  moreover have "\<forall>dt. \<forall>m \<in> set (snd (collision_passes dt w)).
         m \<notin> set (meeples (handle_collisions dt w)) \<and>
         (\<forall>p \<in> set (placeables (handle_collisions dt w)). m \<notin> set (residents p))"
  proof (intro allI ballI conjI)
    fix dt m assume m: "m \<in> set (snd (collision_passes dt w))"
    then show "m \<notin> set (meeples (handle_collisions dt w))" by simp
    fix p assume "p \<in> set (placeables (handle_collisions dt w))"
    then obtain i where i: "i < length (placeables (handle_collisions dt w))"
      and p: "p = placeables (handle_collisions dt w) ! i"
      by (auto simp add: in_set_conv_nth)
    with handle_collisions_residents [OF inv, of dt] m
    show "m \<notin> set (residents p)" by simp
  qed
  ultimately show ?thesis ..
qed

lemma reachable_hut_placed:
  "reachable (handle_event 0 0 id (MOUSEBUTTONDOWN 400 300)
        (handle_event 0 0 id (MOUSEBUTTONDOWN 810 70)
          (initial_world (replicate 20 (0, 0, 0)))))"
  by (intro reachable.r_event reachable_start) simp_all

theorem residents_are_live_witness:
  "set (residents (placeables
      (handle_event 0 0 id (MOUSEBUTTONDOWN 400 300)
        (handle_event 0 0 id (MOUSEBUTTONDOWN 810 70)
          (initial_world (replicate 20 (0, 0, 0))))) ! 0))
     \<subseteq> set (meeples
      (handle_event 0 0 id (MOUSEBUTTONDOWN 400 300)
        (handle_event 0 0 id (MOUSEBUTTONDOWN 810 70)
          (initial_world (replicate 20 (0, 0, 0)))))) \<and>
   residents (placeables
      (handle_event 0 0 id (MOUSEBUTTONDOWN 400 300)
        (handle_event 0 0 id (MOUSEBUTTONDOWN 810 70)
          (initial_world (replicate 20 (0, 0, 0))))) ! 0) = [0, 1, 2, 3]"
proof -
  let ?W0 = "initial_world (replicate 20 (0, 0, 0))"
  let ?W1 = "handle_event 0 0 id (MOUSEBUTTONDOWN 810 70) ?W0"
  let ?W2 = "handle_event 0 0 id (MOUSEBUTTONDOWN 400 300) ?W1"
  have w1: "?W1 = ?W0\<lparr>selected_tool := Some ToolHut\<rparr>" by (simp add: select_hut_tool)
  have p: "placeables ?W2 = [(new_Hut 400 300)\<lparr>residents := take 4 (id (unassigned ?W1))\<rparr>]"
    by (rule place_first_hut) (simp_all add: w1)
  have u: "take 4 (id (unassigned ?W1)) = [0, 1, 2, 3]"
    by (simp add: w1 upt_rec)
  have p0: "placeables ?W2 ! 0 = (new_Hut 400 300)\<lparr>residents := [0, 1, 2, 3]\<rparr>"
    and l: "placeables ?W2 ! 0 \<in> set (placeables ?W2)"
    unfolding p u by simp_all
  from residents_are_live [OF reachable_hut_placed] have "residents_live ?W2" ..
  with l have "set (residents (placeables ?W2 ! 0)) \<subseteq> set (meeples ?W2)"
    unfolding residents_live_def by blast
  then show ?thesis by (simp add: p0)
qed

subsection \<open>Hazard consumption\<close>

lemma obstacle_loop_append:
  "obstacle_loop dt m r (os1 @ os2) s = obstacle_loop dt m r os2 (obstacle_loop dt m r os1 s)"
  by (induction os1 arbitrary: s) simp_all

lemma obstacle_pass_append:
  "obstacle_pass dt (ms1 @ ms2) os s = obstacle_pass dt ms2 os (obstacle_pass dt ms1 os s)"
  by (induction ms1 arbitrary: s) simp_all

lemma collide_obstacle_marks_hole:
  "kind obs = Hole \<Longrightarrow>
   (m_x (fst (collide_obstacle dt m r obs s) m) - p_x obs)\<^sup>2
     + (m_y (fst (collide_obstacle dt m r obs s) m) - p_y obs)\<^sup>2
     < (real_of_int (radius obs) * 0.8)\<^sup>2 \<Longrightarrow>
   m \<in> set (snd (collide_obstacle dt m r obs s))"
  by (auto simp add: collide_obstacle_def Let_def)

lemma marked_at_check:
  assumes d: "distinct (meeples w)"
    and ms: "meeples w = ms1 @ m # ms2" and os: "placeables w = os1 @ obs # os2"
    and hole: "kind obs = Hole"
    and near: "hole_distance_sq (fst (state_at_check dt w ms1 m os1 obs) m) obs
                < (real_of_int (radius obs) * 0.8)\<^sup>2"
  shows "m \<in> set (snd (collision_passes dt w))"
proof -
  define s0 where "s0 = (meeple_pass (meeples w) [] (mheap w), []::mref list)"
  define s1 where "s1 = obstacle_pass dt ms1 (placeables w) s0"
  define r where "r = meeple_col_rect (fst s1 m)"
  define s2 where "s2 = obstacle_loop dt m r os1 s1"
  define s3 where "s3 = collide_obstacle dt m r obs s2"
  have sc: "state_at_check dt w ms1 m os1 obs = s3"
    by (simp add: state_at_check_def Let_def s3_def s2_def r_def s1_def s0_def)
  have "set (snd s1) \<subseteq> set ms1 \<union> set (snd s0)"
    unfolding s1_def using obstacle_pass_marks by blast
  moreover have "m \<notin> set ms1" using d ms by simp
  ultimately have nm: "m \<notin> set (snd s1)" by (auto simp add: s0_def)
  have m3: "m \<in> set (snd s3)"
    unfolding s3_def using hole near [unfolded sc s3_def hole_distance_sq_def]
    by (rule collide_obstacle_marks_hole)
  have e1: "collision_passes dt w = obstacle_pass dt (ms1 @ m # ms2) (placeables w) s0"
    by (simp add: collision_passes_def s0_def ms)
  have e2: "obstacle_pass dt (ms1 @ m # ms2) (placeables w) s0
              = obstacle_pass dt (m # ms2) (placeables w) s1"
    by (simp only: obstacle_pass_append s1_def)
  have e3: "obstacle_pass dt (m # ms2) (placeables w) s1
              = obstacle_pass dt ms2 (placeables w) (obstacle_loop dt m r (placeables w) s1)"
    using nm by (simp add: r_def)
  have e4: "obstacle_loop dt m r (placeables w) s1 = obstacle_loop dt m r os2 s3"
    by (simp add: os obstacle_loop_append s2_def s3_def)
  have "collision_passes dt w
          = obstacle_pass dt ms2 (placeables w) (obstacle_loop dt m r os2 s3)"
    by (simp only: e1 e2 e3 e4)
  moreover have "set (snd s3) \<subseteq> set (snd (obstacle_loop dt m r os2 s3))"
    using obstacle_loop_marks by blast
  moreover have "set (snd (obstacle_loop dt m r os2 s3))
      \<subseteq> set (snd (obstacle_pass dt ms2 (placeables w) (obstacle_loop dt m r os2 s3)))"
    using obstacle_pass_marks by blast
  ultimately show ?thesis using m3 by auto
qed

text \<open>
  Claim C2, as the program has it. A meeple whose distance to the centre of a Hole is
  less than 0.8 times the Hole's radius when the pass checks it against that Hole (the
  check reads the position after the pushes made so far in the pass, the push out of
  the Hole's own rectangle included) is not in \<^verbatim>\<open>meeples\<close> after
  \<^verbatim>\<open>handle_collisions\<close>, nor in any resident list. The removal is one batch after
  the passes: the new \<^verbatim>\<open>meeples\<close> and the new resident lists are the old ones
  without the meeples that the passes have marked.
\<close>

theorem hazard_consumption:
  assumes inv: "world_inv w"
    and ms: "meeples w = ms1 @ m # ms2" and os: "placeables w = os1 @ obs # os2"
    and hole: "kind obs = Hole"
    and near: "hole_distance_sq (fst (state_at_check dt w ms1 m os1 obs) m) obs
                < (real_of_int (radius obs) * 0.8)\<^sup>2"
  shows "m \<notin> set (meeples (handle_collisions dt w)) \<and>
         (\<forall>p \<in> set (placeables (handle_collisions dt w)). m \<notin> set (residents p)) \<and>
         meeples (handle_collisions dt w)
           = filter (\<lambda>x. x \<notin> set (snd (collision_passes dt w))) (meeples w) \<and>
         length (placeables (handle_collisions dt w)) = length (placeables w) \<and>
         (\<forall>i < length (placeables w).
            residents (placeables (handle_collisions dt w) ! i)
              = filter (\<lambda>x. x \<notin> set (snd (collision_passes dt w)))
                  (residents (placeables w ! i)))"
proof -
  have m: "m \<in> set (snd (collision_passes dt w))"
    using world_invD(1) [OF inv] ms os hole near by (rule marked_at_check)
  note R = handle_collisions_residents [OF inv, of dt]
  have "\<forall>p \<in> set (placeables (handle_collisions dt w)). m \<notin> set (residents p)"
  proof
    fix p assume "p \<in> set (placeables (handle_collisions dt w))"
    then obtain i where "i < length (placeables (handle_collisions dt w))"
      and "p = placeables (handle_collisions dt w) ! i"
      by (auto simp add: in_set_conv_nth)
    with R m show "m \<notin> set (residents p)" by simp
  qed
  with m R show ?thesis by simp
qed


lemma hypot_axis: "hypot a 0 = \<bar>a\<bar>"
  by (simp add: hypot_def)

lemma hole_world_passes:
  "collision_passes dt (hole_world x0)
     = collide_obstacle dt 0 (meeple_col_rect (mheap (hole_world x0) 0)) (new_Hole 100 100)
         (mheap (hole_world x0), [])"
  "state_at_check dt (hole_world x0) [] 0 [] (new_Hole 100 100)
     = collide_obstacle dt 0 (meeple_col_rect (mheap (hole_world x0) 0)) (new_Hole 100 100)
         (mheap (hole_world x0), [])"
  by (simp_all add: collision_passes_def state_at_check_def hole_world_def)

lemma hole_world_inv: "world_inv (hole_world x0)"
  by (rule world_invI) (simp_all add: hole_world_def new_Hole_def Let_def)

lemma hole_world_rect_123:
  "meeple_col_rect (mheap (hole_world 123) 0) = mk_Rect 115 92 16 16"
  by (simp add: hole_world_def meeple_col_rect_def mk_Rect_float_def py_int_def Meeple_def
      BODY_RADIUS_def)

lemma hole_world_rect_110:
  "meeple_col_rect (mheap (hole_world 110) 0) = mk_Rect 102 92 16 16"
  by (simp add: hole_world_def meeple_col_rect_def mk_Rect_float_def py_int_def Meeple_def
      BODY_RADIUS_def)

lemma hole_rect:
  "collision_rect (new_Hole 100 100) = mk_Rect 70 70 60 60"
  "kind (new_Hole 100 100) = Hole" "radius (new_Hole 100 100) = 30"
  "p_x (new_Hole 100 100) = 100" "p_y (new_Hole 100 100) = 100"
  by (simp_all add: new_Hole_def Let_def HOLE_RADIUS_def)

lemma hole_world_meeple:
  "m_x (mheap (hole_world x0) 0) = x0" "m_y (mheap (hole_world x0) 0) = 100"
  "m_dx (mheap (hole_world x0) 0) = 0" "m_dy (mheap (hole_world x0) 0) = 0"
  by (simp_all add: hole_world_def Meeple_def)

lemma hole_world_check_123:
  "m_x (fst (collide_obstacle dt 0 (mk_Rect 115 92 16 16) (new_Hole 100 100)
               (mheap (hole_world 123), [])) 0) = 124.5"
  "m_y (fst (collide_obstacle dt 0 (mk_Rect 115 92 16 16) (new_Hole 100 100)
               (mheap (hole_world 123), [])) 0) = 100"
  "snd (collide_obstacle dt 0 (mk_Rect 115 92 16 16) (new_Hole 100 100)
               (mheap (hole_world 123), [])) = []"
  by (simp_all add: collide_obstacle_def Let_def hole_rect hole_world_meeple hypot_axis
      mk_Rect_def colliderect_def rect_truthy_def centerx_def centery_def
      OBSTACLE_PUSH_FORCE_def push_scale_def power2_eq_square)

lemma hole_world_check_110:
  "m_x (fst (collide_obstacle dt 0 (mk_Rect 102 92 16 16) (new_Hole 100 100)
               (mheap (hole_world 110), [])) 0) = 111.5"
  "m_y (fst (collide_obstacle dt 0 (mk_Rect 102 92 16 16) (new_Hole 100 100)
               (mheap (hole_world 110), [])) 0) = 100"
  by (simp_all add: collide_obstacle_def Let_def hole_rect hole_world_meeple hypot_axis
      mk_Rect_def colliderect_def rect_truthy_def centerx_def centery_def
      OBSTACLE_PUSH_FORCE_def push_scale_def power2_eq_square)

text \<open>
  The claim as stated, with the distance taken when the collision handling starts,
  fails: a meeple 23 from the centre of a Hole of radius 30 (23 < 24) is first pushed
  1.5 away from the centre, is 24.5 from it at the check, and stays.
\<close>

theorem hazard_consumption_counterexample:
  "0 \<in> set (meeples (hole_world 123)) \<and>
   new_Hole 100 100 \<in> set (placeables (hole_world 123)) \<and>
   kind (new_Hole 100 100) = Hole \<and>
   hole_distance_sq (mheap (hole_world 123) 0) (new_Hole 100 100)
     < (real_of_int (radius (new_Hole 100 100)) * 0.8)\<^sup>2 \<and>
   0 \<in> set (meeples (handle_collisions (1/60) (hole_world 123)))"
proof -
  have "snd (collision_passes (1/60) (hole_world 123)) = []"
    by (simp only: hole_world_passes hole_world_rect_123 hole_world_check_123)
  then have "meeples (handle_collisions (1/60) (hole_world 123)) = meeples (hole_world 123)"
    by simp
  moreover have "meeples (hole_world 123) = [0]" "placeables (hole_world 123) = [new_Hole 100 100]"
    by (simp_all add: hole_world_def)
  moreover have "hole_distance_sq (mheap (hole_world 123) 0) (new_Hole 100 100)
     < (real_of_int (radius (new_Hole 100 100)) * 0.8)\<^sup>2"
    by (simp add: hole_distance_sq_def hole_rect hole_world_meeple power2_eq_square)
  ultimately show ?thesis by (simp add: hole_rect)
qed

theorem hazard_consumption_witness:
  "0 \<notin> set (meeples (handle_collisions (1/60) (hole_world 110))) \<and>
   meeples (handle_collisions (1/60) (hole_world 110)) = [] \<and>
   hole_distance_sq (mheap (hole_world 110) 0) (new_Hole 100 100) = 100 \<and>
   hole_distance_sq (fst (state_at_check (1/60) (hole_world 110) [] 0 [] (new_Hole 100 100)) 0)
      (new_Hole 100 100) = 132.25"
proof -
  have ms: "meeples (hole_world 110) = [] @ 0 # []"
    and os: "placeables (hole_world 110) = [] @ new_Hole 100 100 # []"
    by (simp_all add: hole_world_def)
  have d: "hole_distance_sq (fst (state_at_check (1/60) (hole_world 110) [] 0 [] (new_Hole 100 100)) 0)
      (new_Hole 100 100) = 132.25"
    by (simp add: hole_world_passes hole_world_rect_110 hole_distance_sq_def hole_world_check_110
        hole_rect power2_eq_square)
  then have near: "hole_distance_sq
      (fst (state_at_check (1/60) (hole_world 110) [] 0 [] (new_Hole 100 100)) 0) (new_Hole 100 100)
      < (real_of_int (radius (new_Hole 100 100)) * 0.8)\<^sup>2"
    by (simp add: hole_rect power2_eq_square)
  have d0: "hole_distance_sq (mheap (hole_world 110) 0) (new_Hole 100 100) = 100"
    by (simp add: hole_distance_sq_def hole_rect hole_world_meeple)
  have mW: "meeples (hole_world 110) = [0]" by (simp add: hole_world_def)
  from hazard_consumption [OF hole_world_inv ms os hole_rect(2) near]
  have a: "0 \<notin> set (meeples (handle_collisions (1/60) (hole_world 110)))" by blast
  then have "0 \<in> set (snd (collision_passes (1/60) (hole_world 110)))"
    by (simp add: mW split: if_splits)
  then have e: "meeples (handle_collisions (1/60) (hole_world 110)) = []"
    by (simp add: mW)
  show ?thesis by (intro conjI) (rule a e d0 d)+
qed

end
